theory Spec2Isabelle
  imports Main
begin

section \<open>ftp\_sync: one-way synchronisation of a local tree to an FTP server\<close>

text \<open>
  The program (\<^verbatim>\<open>ftp_sync.py\<close>) is a linear script: it lists the remote tree, walks
  the local tree, decides what to upload, creates missing remote directories, uploads,
  and deletes remote files that have no local counterpart. The FTP client, the local
  file system and a few built-ins of the interpreter are outside the repository; they
  are inputs of the model:
  \<^item> the server answers every call of the client; its answer may depend on all calls
    made so far (\<open>ftp_server\<close>);
  \<^item> the local file system gives the walk of \<^verbatim>\<open>output\<close>, file sizes, modification
    times and file contents (\<open>local_fs\<close>);
  \<^item> the interpreter gives \<^verbatim>\<open>int()\<close> on strings, the iteration order of a set and
    the number of stack frames left (\<open>runtime\<close>).
  Every exception of the source is a value \<open>Inl e\<close>; the exceptions modelled are the
  instances of \<^verbatim>\<open>Exception\<close>. Writing a message to the terminal does not raise. The
  local tree does not change during a run, so both walks of \<^verbatim>\<open>output\<close> see the same
  tree. The frames counted are those of the functions of the script; a call that finds
  no frame left raises \<^verbatim>\<open>RecursionError\<close>. The force flag is the value that
  \<^verbatim>\<open>parse_arguments\<close> returns.
\<close>

subsection \<open>Paths (pathlib on POSIX)\<close>

text \<open>
  A \<^verbatim>\<open>PurePosixPath\<close> is its anchor (none, \<^verbatim>\<open>/\<close> or \<^verbatim>\<open>//\<close>) and its list of
  components. Parsing a string splits at \<^verbatim>\<open>/\<close> and drops empty components and
  \<^verbatim>\<open>.\<close>; two paths are equal when anchor and components are.
\<close>

datatype anchor = Relative | Root | DoubleRoot

datatype ppath = Path (anchor: anchor) (parts: "string list")

fun split_on :: "char \<Rightarrow> string \<Rightarrow> string list" where
  "split_on c [] = [[]]"
| "split_on c (x # xs) =
     (if x = c then [] # split_on c xs
      else (case split_on c xs of
              [] \<Rightarrow> [[x]]
            | w # ws \<Rightarrow> (x # w) # ws))"

definition splitroot :: "string \<Rightarrow> anchor \<times> string" where
  "splitroot p =
     (if take 1 p \<noteq> ''/'' then (Relative, p)
      else if take 1 (drop 1 p) \<noteq> ''/'' \<or> take 1 (drop 2 p) = ''/'' then (Root, drop 1 p)
      else (DoubleRoot, drop 2 p))"

definition path_of :: "string \<Rightarrow> ppath" where
  "path_of s =
     (case splitroot s of
        (a, rel) \<Rightarrow> Path a (filter (\<lambda>x. x \<noteq> [] \<and> x \<noteq> ''.'') (split_on CHR ''/'' rel)))"

definition joinpath :: "ppath \<Rightarrow> ppath \<Rightarrow> ppath" where
  "joinpath a b = (if anchor b \<noteq> Relative then b else Path (anchor a) (parts a @ parts b))"

definition join_name :: "ppath \<Rightarrow> string \<Rightarrow> ppath" where
  "join_name a s = joinpath a (path_of s)"

fun strip_prefix :: "'a list \<Rightarrow> 'a list \<Rightarrow> 'a list option" where
  "strip_prefix [] ys = Some ys"
| "strip_prefix (x # xs) [] = None"
| "strip_prefix (x # xs) (y # ys) = (if x = y then strip_prefix xs ys else None)"

datatype exn =
    KeyError string
  | ValueError
  | RecursionError
  | Error_perm string
  | OtherException string

definition relative_to :: "ppath \<Rightarrow> ppath \<Rightarrow> exn + ppath" where
  "relative_to p other =
     (if anchor p = anchor other then
        (case strip_prefix (parts other) (parts p) of
           None \<Rightarrow> Inl ValueError
         | Some rest \<Rightarrow> Inr (Path Relative rest))
      else Inl ValueError)"

definition dot :: ppath where
  "dot = path_of ''.''"

definition local_site_path :: string where
  "local_site_path = ''output''"

subsection \<open>The FTP client, the trace of a run and the interpreter\<close>

text \<open>
  The state of a run is what it has done so far: the calls made on the client
  (\<^verbatim>\<open>ftplib.FTP_TLS\<close>), in order, and the messages written to the terminal, in order.
  \<open>ftp_call\<close> lists the methods of the client that the program or the specification
  mentions; a path is recorded as the path object the call is given.
\<close>

datatype ftp_call =
    Connect string nat
  | Login string string
  | Prot_p
  | Cwd string
  | is_mlsd: Mlsd ppath "string list"
  | is_mkd: Mkd ppath
  | is_rmd: Rmd ppath
  | is_storbinary: Storbinary ppath string
  | is_delete: Delete ppath
  | Quit

datatype msg =
    Connecting
  | Getting_remote_files
  | Getting_local_files
  | Looking_for_changes
  | Force_option_given
  | Mirroring_directories
  | Uploading ppath
  | Checking_for_remote_files_to_delete
  | No_remote_files_to_delete
  | Deleting_remote_files nat
  | Deleted ppath
  | Failed_to_delete ppath exn
  | Unexpected_error_deleting ppath exn
  | Error_uploading exn
  | Finished_banner

record state =
  calls :: "ftp_call list"
  printed :: "msg list"

definition init :: state where
  "init = \<lparr>calls = [], printed = []\<rparr>"

text \<open>
  An entry of an MLSD listing is a name and a dictionary of facts. The server is two
  functions of the calls made so far, the current call last: the reply to a command
  (\<open>None\<close> when it succeeds, the exception it raises otherwise) and the reply to a
  listing.
\<close>

type_synonym entry = "string \<times> (string \<rightharpoonup> string)"

record ftp_server =
  cmd_reply :: "ftp_call list \<Rightarrow> exn option"
  mlsd_reply :: "ftp_call list \<Rightarrow> exn + entry list"

text \<open>
  The local side: \<^verbatim>\<open>Path('output').walk()\<close> as the list of its \<open>(root, dirs, files)\<close>
  triples, \<^verbatim>\<open>os.path.getmtime\<close> (with \<^verbatim>\<open>datetime.fromtimestamp\<close>),
  \<^verbatim>\<open>os.path.getsize\<close> and \<^verbatim>\<open>open(file, 'rb')\<close>. The local tree does not change
  during a run.
\<close>

record 't local_fs =
  walk :: "(ppath \<times> string list \<times> string list) list"
  getmtime :: "ppath \<Rightarrow> exn + 't"
  getsize :: "ppath \<Rightarrow> exn + int"
  open_rb :: "ppath \<Rightarrow> exn + string"

text \<open>
  The interpreter: \<^verbatim>\<open>int(s)\<close> (\<open>None\<close> is its \<^verbatim>\<open>ValueError\<close>), the order in which a
  set is iterated (given the set as a duplicate-free list), and how many nested calls
  of \<^verbatim>\<open>recursive_get_dirs\<close> fit below the module level before \<^verbatim>\<open>RecursionError\<close>.
\<close>

record runtime =
  int_of_str :: "string \<Rightarrow> int option"
  set_iter :: "ppath list \<Rightarrow> ppath list"
  frames :: nat

type_synonym 'a io = "state \<Rightarrow> (exn + 'a) \<times> state"

definition io_bind :: "'a io \<Rightarrow> ('a \<Rightarrow> 'b io) \<Rightarrow> 'b io" where
  "io_bind m f st = (case m st of (Inl e, st') \<Rightarrow> (Inl e, st') | (Inr x, st') \<Rightarrow> f x st')"

definition io_return :: "'a \<Rightarrow> 'a io" where
  "io_return x st = (Inr x, st)"

definition io_lift :: "exn + 'a \<Rightarrow> 'a io" where
  "io_lift r st = (r, st)"

definition io_try :: "'a io \<Rightarrow> (exn \<Rightarrow> 'a io) \<Rightarrow> 'a io" where
  "io_try m handler st = (case m st of (Inl e, st') \<Rightarrow> handler e st' | (Inr x, st') \<Rightarrow> (Inr x, st'))"

definition say :: "msg \<Rightarrow> state \<Rightarrow> state" where
  "say m st = st\<lparr>printed := printed st @ [m]\<rparr>"

definition print :: "msg \<Rightarrow> unit io" where
  "print m st = (Inr (), say m st)"

definition ftp_cmd :: "ftp_server \<Rightarrow> ftp_call \<Rightarrow> unit io" where
  "ftp_cmd srv c st =
     (let st' = st\<lparr>calls := calls st @ [c]\<rparr>
      in case cmd_reply srv (calls st') of
           None \<Rightarrow> (Inr (), st')
         | Some e \<Rightarrow> (Inl e, st'))"

definition mlsd :: "ftp_server \<Rightarrow> ppath \<Rightarrow> string list \<Rightarrow> entry list io" where
  "mlsd srv path facts st =
     (let st' = st\<lparr>calls := calls st @ [Mlsd path facts]\<rparr>
      in (mlsd_reply srv (calls st'), st'))"

definition fact :: "entry \<Rightarrow> string \<Rightarrow> exn + string" where
  "fact file_info key = (case snd file_info key of None \<Rightarrow> Inl (KeyError key) | Some v \<Rightarrow> Inr v)"

subsection \<open>get\_remote\_dirs\<close>

text \<open>
  \<^verbatim>\<open>recursive_get_dirs\<close> appends the path, lists it, and calls itself on every entry
  of type \<^verbatim>\<open>dir\<close>. \<open>scan_entries\<close> is its \<^verbatim>\<open>for\<close> loop. The first argument counts the
  nested calls that still fit on the stack.
\<close>

fun recursive_get_dirs :: "nat \<Rightarrow> ftp_server \<Rightarrow> ppath \<Rightarrow> ppath list \<Rightarrow> ppath list io"
  and scan_entries :: "nat \<Rightarrow> ftp_server \<Rightarrow> ppath \<Rightarrow> entry list \<Rightarrow> ppath list \<Rightarrow> ppath list io"
where
  "recursive_get_dirs 0 srv path remote_dirs = io_lift (Inl RecursionError)"
| "recursive_get_dirs (Suc n) srv path remote_dirs =
     io_bind (mlsd srv path [''type'']) (\<lambda>listing.
       scan_entries n srv path listing (remote_dirs @ [path]))"
| "scan_entries n srv path [] remote_dirs = io_return remote_dirs"
| "scan_entries n srv path (file_info # rest) remote_dirs =
     io_bind (io_lift (fact file_info ''type'')) (\<lambda>t.
       if t = ''dir'' then
         io_bind (recursive_get_dirs n srv (join_name path (fst file_info)) remote_dirs)
           (\<lambda>remote_dirs'. scan_entries n srv path rest remote_dirs')
       else scan_entries n srv path rest remote_dirs)"

definition get_remote_dirs :: "nat \<Rightarrow> ftp_server \<Rightarrow> string \<Rightarrow> ppath list io" where
  "get_remote_dirs n srv path = recursive_get_dirs n srv (path_of path) []"

subsection \<open>get\_remote\_files\<close>

text \<open>
  A remote file is the tuple \<open>(path, modify, size)\<close> of the source; both facts are the
  strings the server sent. \<open>file_entries\<close> is the list comprehension over one listing,
  \<open>list_remote_files\<close> the loop over the directories.
\<close>

type_synonym remote_file = "ppath \<times> string \<times> string"

fun file_entries :: "ppath \<Rightarrow> entry list \<Rightarrow> exn + remote_file list" where
  "file_entries dir [] = Inr []"
| "file_entries dir (f # fs) =
     (case fact f ''type'' of
        Inl e \<Rightarrow> Inl e
      | Inr t \<Rightarrow>
          if t = ''file'' then
            (case fact f ''modify'' of
               Inl e \<Rightarrow> Inl e
             | Inr m \<Rightarrow>
                 (case fact f ''size'' of
                    Inl e \<Rightarrow> Inl e
                  | Inr s \<Rightarrow>
                      (case file_entries dir fs of
                         Inl e \<Rightarrow> Inl e
                       | Inr found \<Rightarrow> Inr ((join_name dir (fst f), m, s) # found))))
          else file_entries dir fs)"

fun list_remote_files :: "ftp_server \<Rightarrow> ppath list \<Rightarrow> remote_file list \<Rightarrow> remote_file list io" where
  "list_remote_files srv [] remote_files = io_return remote_files"
| "list_remote_files srv (dir # dirs) remote_files =
     io_bind (mlsd srv dir [''size'', ''modify'', ''type'']) (\<lambda>remote_file_list.
     io_bind (io_lift (file_entries dir remote_file_list)) (\<lambda>found.
       list_remote_files srv dirs (remote_files @ found)))"

definition get_remote_files :: "nat \<Rightarrow> ftp_server \<Rightarrow> string \<Rightarrow> remote_file list io" where
  "get_remote_files n srv path =
     io_bind (get_remote_dirs (n - 1) srv path) (\<lambda>remote_dirs.
       list_remote_files srv remote_dirs [])"

subsection \<open>The local files\<close>

text \<open>
  \<^verbatim>\<open>local_files\<close> is a dictionary from the path of a file to its \<^verbatim>\<open>modify\<close> and
  \<^verbatim>\<open>size\<close>: an association list in insertion order, where storing under a key that is
  present replaces the value in place.
\<close>

record 't file_info =
  info_modify :: 't
  info_size :: int

fun dict_set :: "'k \<Rightarrow> 'v \<Rightarrow> ('k \<times> 'v) list \<Rightarrow> ('k \<times> 'v) list" where
  "dict_set k v [] = [(k, v)]"
| "dict_set k v ((k', v') # kvs) =
     (if k' = k then (k', v) # kvs else (k', v') # dict_set k v kvs)"

fun stat_files ::
  "'t local_fs \<Rightarrow> ppath \<Rightarrow> string list \<Rightarrow> (ppath \<times> 't file_info) list
     \<Rightarrow> exn + (ppath \<times> 't file_info) list" where
  "stat_files fs root [] local_files = Inr local_files"
| "stat_files fs root (file # files) local_files =
     (let filepath = join_name root file
      in case getmtime fs filepath of
           Inl e \<Rightarrow> Inl e
         | Inr m \<Rightarrow>
             (case getsize fs filepath of
                Inl e \<Rightarrow> Inl e
              | Inr s \<Rightarrow>
                  stat_files fs root files
                    (dict_set filepath \<lparr>info_modify = m, info_size = s\<rparr> local_files)))"

fun get_local_files ::
  "'t local_fs \<Rightarrow> (ppath \<times> string list \<times> string list) list \<Rightarrow> (ppath \<times> 't file_info) list
     \<Rightarrow> exn + (ppath \<times> 't file_info) list" where
  "get_local_files fs [] local_files = Inr local_files"
| "get_local_files fs ((root, dirs, files) # rest) local_files =
     (case stat_files fs root files local_files of
        Inl e \<Rightarrow> Inl e
      | Inr local_files' \<Rightarrow> get_local_files fs rest local_files')"

subsection \<open>Looking for changes\<close>

text \<open>
  \<open>find_remote\<close> is \<^verbatim>\<open>next((file for file in remote_files if ... == remote_file), None)\<close>:
  the first remote file whose path relative to \<^verbatim>\<open>.\<close> is the given one. \<open>find_changes\<close>
  is the loop over \<^verbatim>\<open>local_files.items()\<close>. \<open>look_for_changes\<close> is the loop followed by
  the test of the force flag, which replaces the loop's result by the keys of
  \<^verbatim>\<open>local_files\<close>.
\<close>

fun find_remote :: "remote_file list \<Rightarrow> ppath \<Rightarrow> exn + remote_file option" where
  "find_remote [] remote_file = Inr None"
| "find_remote (file # files) remote_file =
     (case relative_to (fst file) dot of
        Inl e \<Rightarrow> Inl e
      | Inr p \<Rightarrow> if p = remote_file then Inr (Some file) else find_remote files remote_file)"

fun find_changes ::
  "runtime \<Rightarrow> remote_file list \<Rightarrow> (ppath \<times> 't file_info) list \<Rightarrow> ppath list \<Rightarrow> exn + ppath list" where
  "find_changes rt remote_files [] changed_files = Inr changed_files"
| "find_changes rt remote_files ((local_file, local_file_info) # rest) changed_files =
     (case relative_to local_file (path_of local_site_path) of
        Inl e \<Rightarrow> Inl e
      | Inr remote_file \<Rightarrow>
          (case find_remote remote_files remote_file of
             Inl e \<Rightarrow> Inl e
           | Inr None \<Rightarrow> find_changes rt remote_files rest (changed_files @ [local_file])
           | Inr (Some remote_file_info) \<Rightarrow>
               (case int_of_str rt (snd (snd remote_file_info)) of
                  None \<Rightarrow> Inl ValueError
                | Some remote_size \<Rightarrow>
                    if remote_size < info_size local_file_info
                    then find_changes rt remote_files rest (changed_files @ [local_file])
                    else find_changes rt remote_files rest changed_files)))"

definition look_for_changes ::
  "runtime \<Rightarrow> bool \<Rightarrow> remote_file list \<Rightarrow> (ppath \<times> 't file_info) list \<Rightarrow> ppath list io" where
  "look_for_changes rt force remote_files local_files =
     io_bind (print Looking_for_changes) (\<lambda>_.
     io_bind (io_lift (find_changes rt remote_files local_files [])) (\<lambda>changed_files.
       if force
       then io_bind (print Force_option_given) (\<lambda>_. io_return (map fst local_files))
       else io_return changed_files))"

subsection \<open>Mirroring directories\<close>

text \<open>
  \<open>walk_dirs\<close> collects \<^verbatim>\<open>local_dirs\<close> from a second walk; \<open>map_raise\<close> is a list
  comprehension whose expression may raise; \<open>make_dirs\<close> is the loop that calls
  \<^verbatim>\<open>mkd\<close> for every local directory that is not in \<^verbatim>\<open>remote_dirs\<close>.
\<close>

fun relative_dirs :: "ppath \<Rightarrow> string list \<Rightarrow> ppath list \<Rightarrow> exn + ppath list" where
  "relative_dirs root [] local_dirs = Inr local_dirs"
| "relative_dirs root (d # dirs) local_dirs =
     (case relative_to (join_name root d) (path_of ''output'') of
        Inl e \<Rightarrow> Inl e
      | Inr p \<Rightarrow> relative_dirs root dirs (local_dirs @ [p]))"

fun walk_dirs :: "(ppath \<times> string list \<times> string list) list \<Rightarrow> ppath list \<Rightarrow> exn + ppath list" where
  "walk_dirs [] local_dirs = Inr local_dirs"
| "walk_dirs ((root, dirs, files) # rest) local_dirs =
     (case relative_dirs root dirs local_dirs of
        Inl e \<Rightarrow> Inl e
      | Inr local_dirs' \<Rightarrow> walk_dirs rest local_dirs')"

fun map_raise :: "('a \<Rightarrow> exn + 'b) \<Rightarrow> 'a list \<Rightarrow> exn + 'b list" where
  "map_raise f [] = Inr []"
| "map_raise f (x # xs) =
     (case f x of
        Inl e \<Rightarrow> Inl e
      | Inr y \<Rightarrow> (case map_raise f xs of Inl e \<Rightarrow> Inl e | Inr ys \<Rightarrow> Inr (y # ys)))"

fun make_dirs :: "ftp_server \<Rightarrow> ppath list \<Rightarrow> ppath list \<Rightarrow> unit io" where
  "make_dirs srv remote_dirs [] = io_return ()"
| "make_dirs srv remote_dirs (d # local_dirs) =
     (if d \<notin> set remote_dirs then
        io_bind (ftp_cmd srv (Mkd d)) (\<lambda>_. make_dirs srv remote_dirs local_dirs)
      else make_dirs srv remote_dirs local_dirs)"

definition mirror_directories :: "runtime \<Rightarrow> ftp_server \<Rightarrow> 't local_fs \<Rightarrow> string \<Rightarrow> unit io" where
  "mirror_directories rt srv fs ftp_path =
     io_bind (print Mirroring_directories) (\<lambda>_.
     io_bind (io_lift (walk_dirs (walk fs) [])) (\<lambda>local_dirs.
     io_bind (get_remote_dirs (frames rt) srv ftp_path) (\<lambda>dirs.
     io_bind (io_lift (map_raise (\<lambda>d. relative_to d (path_of ftp_path)) dirs)) (\<lambda>remote_dirs.
       make_dirs srv remote_dirs local_dirs))))"

subsection \<open>Uploading\<close>

fun upload_files :: "ftp_server \<Rightarrow> 't local_fs \<Rightarrow> string \<Rightarrow> ppath list \<Rightarrow> unit io" where
  "upload_files srv fs ftp_path [] = io_return ()"
| "upload_files srv fs ftp_path (file # changed_files) =
     io_bind (print (Uploading file)) (\<lambda>_.
     io_bind (io_lift (relative_to file (path_of local_site_path))) (\<lambda>p.
     io_bind (io_lift (open_rb fs file)) (\<lambda>file_object.
     io_bind (ftp_cmd srv (Storbinary (joinpath (path_of ftp_path) p) file_object)) (\<lambda>_.
       upload_files srv fs ftp_path changed_files))))"

subsection \<open>delete\_remote\_files\_not\_in\_local\<close>

text \<open>
  A set is a duplicate-free list; \<open>set_iter\<close> gives the order in which the
  \<^verbatim>\<open>for\<close> loop visits \<^verbatim>\<open>files_to_delete\<close>. \<open>delete_one\<close> is the body of the loop with
  its \<^verbatim>\<open>try\<close> and both \<^verbatim>\<open>except\<close> clauses.
\<close>

definition files_to_delete ::
  "runtime \<Rightarrow> remote_file list \<Rightarrow> (ppath \<times> 'v) list \<Rightarrow> string \<Rightarrow> exn + ppath list" where
  "files_to_delete rt remote_files local_files site =
     (case map_raise (\<lambda>f. relative_to f (path_of site)) (map fst local_files) of
        Inl e \<Rightarrow> Inl e
      | Inr local_file_paths \<Rightarrow>
          (case map_raise (\<lambda>f. relative_to (fst f) (path_of ''.'')) remote_files of
             Inl e \<Rightarrow> Inl e
           | Inr remote_file_paths \<Rightarrow>
               Inr (set_iter rt
                 (remdups (filter (\<lambda>p. p \<notin> set local_file_paths) remote_file_paths)))))"

definition delete_one :: "ftp_server \<Rightarrow> ppath \<Rightarrow> unit io" where
  "delete_one srv remote_full_path =
     io_try
       (io_bind (ftp_cmd srv (Delete remote_full_path)) (\<lambda>_.
          print (Deleted remote_full_path)))
       (\<lambda>e. case e of
              Error_perm m \<Rightarrow> print (Failed_to_delete remote_full_path e)
            | _ \<Rightarrow> print (Unexpected_error_deleting remote_full_path e))"

fun delete_files :: "ftp_server \<Rightarrow> string \<Rightarrow> ppath list \<Rightarrow> unit io" where
  "delete_files srv ftp_path [] = io_return ()"
| "delete_files srv ftp_path (remote_file # rest) =
     io_bind (delete_one srv (joinpath (path_of ftp_path) remote_file)) (\<lambda>_.
       delete_files srv ftp_path rest)"

definition delete_remote_files_not_in_local ::
  "runtime \<Rightarrow> ftp_server \<Rightarrow> remote_file list \<Rightarrow> (ppath \<times> 'v) list \<Rightarrow> string \<Rightarrow> string \<Rightarrow> unit io" where
  "delete_remote_files_not_in_local rt srv remote_files local_files site ftp_path =
     io_bind (io_lift (files_to_delete rt remote_files local_files site)) (\<lambda>to_delete.
       if to_delete = [] then print No_remote_files_to_delete
       else io_bind (print (Deleting_remote_files (length to_delete))) (\<lambda>_.
              delete_files srv ftp_path to_delete))"

subsection \<open>The script\<close>

text \<open>
  \<open>try_body\<close> is the body of the \<^verbatim>\<open>try\<close> statement, \<open>main\<close> the whole script: the
  four reads of \<^verbatim>\<open>os.environ\<close> come before the \<^verbatim>\<open>try\<close>, and a \<^verbatim>\<open>KeyError\<close> there ends
  the process with a traceback. \<open>force\<close> is \<^verbatim>\<open>args.force\<close>.
\<close>

datatype outcome = Exit_normally | Traceback exn

definition environ_get :: "(string \<rightharpoonup> string) \<Rightarrow> string \<Rightarrow> exn + string" where
  "environ_get environ key = (case environ key of None \<Rightarrow> Inl (KeyError key) | Some v \<Rightarrow> Inr v)"

definition connect :: "ftp_server \<Rightarrow> string \<Rightarrow> string \<Rightarrow> string \<Rightarrow> string \<Rightarrow> unit io" where
  "connect srv ftp_host ftp_username ftp_password ftp_path =
     io_bind (print Connecting) (\<lambda>_.
     io_bind (ftp_cmd srv (Connect ftp_host 21)) (\<lambda>_.
     io_bind (ftp_cmd srv (Login ftp_username ftp_password)) (\<lambda>_.
     io_bind (ftp_cmd srv Prot_p) (\<lambda>_.
       ftp_cmd srv (Cwd ftp_path)))))"

definition try_body ::
  "runtime \<Rightarrow> bool \<Rightarrow> ftp_server \<Rightarrow> 't local_fs \<Rightarrow> string \<Rightarrow> string \<Rightarrow> string \<Rightarrow> string \<Rightarrow> unit io" where
  "try_body rt force srv fs ftp_host ftp_username ftp_password ftp_path =
     io_bind (connect srv ftp_host ftp_username ftp_password ftp_path) (\<lambda>_.
     io_bind (print Getting_remote_files) (\<lambda>_.
     io_bind (get_remote_files (frames rt) srv ''.'') (\<lambda>remote_files.
     io_bind (print Getting_local_files) (\<lambda>_.
     io_bind (io_lift (get_local_files fs (walk fs) [])) (\<lambda>local_files.
     io_bind (look_for_changes rt force remote_files local_files) (\<lambda>changed_files.
     io_bind (mirror_directories rt srv fs ftp_path) (\<lambda>_.
     io_bind (upload_files srv fs ftp_path changed_files) (\<lambda>_.
     io_bind (print Checking_for_remote_files_to_delete) (\<lambda>_.
     io_bind (delete_remote_files_not_in_local rt srv remote_files local_files
                local_site_path ftp_path) (\<lambda>_.
       ftp_cmd srv Quit))))))))))"

definition main ::
  "runtime \<Rightarrow> bool \<Rightarrow> (string \<rightharpoonup> string) \<Rightarrow> ftp_server \<Rightarrow> 't local_fs \<Rightarrow> outcome \<times> state" where
  "main rt force environ srv fs =
     (case environ_get environ ''FTP_HOST'' of
        Inl e \<Rightarrow> (Traceback e, init)
      | Inr ftp_host \<Rightarrow>
     (case environ_get environ ''FTP_USERNAME'' of
        Inl e \<Rightarrow> (Traceback e, init)
      | Inr ftp_username \<Rightarrow>
     (case environ_get environ ''FTP_PASSWORD'' of
        Inl e \<Rightarrow> (Traceback e, init)
      | Inr ftp_password \<Rightarrow>
     (case environ_get environ ''FTP_PATH'' of
        Inl e \<Rightarrow> (Traceback e, init)
      | Inr ftp_path \<Rightarrow>
     (case io_try (try_body rt force srv fs ftp_host ftp_username ftp_password ftp_path)
             (\<lambda>e. print (Error_uploading e)) init of
        (r, st) \<Rightarrow> (Exit_normally, say Finished_banner st))))))"

subsection \<open>What a part of the run does to the trace\<close>

text \<open>
  \<open>failure srv cs\<close> is the exception the server raises for the last call of \<open>cs\<close>, if it
  raises one. \<open>phase srv C M m\<close> says of a part \<open>m\<close> of the run: it only adds to the
  trace, every call it adds satisfies \<open>C\<close> and every message \<open>M\<close>, and a call other
  than \<^verbatim>\<open>delete\<close> for which the server raises is the last call of \<open>m\<close>, which ends with
  that exception.
\<close>

definition failure :: "ftp_server \<Rightarrow> ftp_call list \<Rightarrow> exn option" where
  "failure srv cs =
     (case last cs of
        Mlsd p facts \<Rightarrow> (case mlsd_reply srv cs of Inl e \<Rightarrow> Some e | Inr listing \<Rightarrow> None)
      | _ \<Rightarrow> cmd_reply srv cs)"

definition phase :: "ftp_server \<Rightarrow> (ftp_call \<Rightarrow> bool) \<Rightarrow> (msg \<Rightarrow> bool) \<Rightarrow> 'a io \<Rightarrow> bool" where
  "phase srv C M m \<longleftrightarrow>
     (\<forall>st r st'. m st = (r, st') \<longrightarrow>
        (\<exists>cs ms. calls st' = calls st @ cs \<and> printed st' = printed st @ ms \<and>
                 list_all C cs \<and> list_all M ms \<and>
                 (\<forall>i e. i < length cs \<longrightarrow> \<not> is_delete (cs ! i) \<longrightarrow>
                        failure srv (calls st @ take (Suc i) cs) = Some e \<longrightarrow>
                        Suc i = length cs \<and> r = Inl e)))"

definition deletion_msg :: "msg \<Rightarrow> bool" where
  "deletion_msg m \<longleftrightarrow>
     (case m of
        No_remote_files_to_delete \<Rightarrow> True
      | Deleting_remote_files n \<Rightarrow> True
      | Deleted p \<Rightarrow> True
      | Failed_to_delete p e \<Rightarrow> True
      | Unexpected_error_deleting p e \<Rightarrow> True
      | _ \<Rightarrow> False)"


text \<open>
  \<open>delete_report\<close> is the line the deletion loop writes for one file, given the calls
  up to and including its \<^verbatim>\<open>delete\<close>.
\<close>

definition delete_report :: "ftp_server \<Rightarrow> ftp_call list \<Rightarrow> ppath \<Rightarrow> msg" where
  "delete_report srv cs p =
     (case cmd_reply srv cs of
        None \<Rightarrow> Deleted p
      | Some e \<Rightarrow>
          (case e of
             Error_perm m \<Rightarrow> Failed_to_delete p e
           | _ \<Rightarrow> Unexpected_error_deleting p e))"

text \<open>
  The body of the \<^verbatim>\<open>try\<close> statement in three parts: \<open>survey\<close> connects and lists both
  sides, \<open>transfer\<close> looks for changes, mirrors the directories and uploads, \<open>finish\<close>
  deletes and quits. \<open>try_body\<close> is their sequence (lemma \<open>try_body_parts\<close>).
\<close>

definition survey ::
  "runtime \<Rightarrow> ftp_server \<Rightarrow> 't local_fs \<Rightarrow> string \<Rightarrow> string \<Rightarrow> string \<Rightarrow> string
     \<Rightarrow> (remote_file list \<times> (ppath \<times> 't file_info) list) io" where
  "survey rt srv fs ftp_host ftp_username ftp_password ftp_path =
     io_bind (connect srv ftp_host ftp_username ftp_password ftp_path) (\<lambda>_.
     io_bind (print Getting_remote_files) (\<lambda>_.
     io_bind (get_remote_files (frames rt) srv ''.'') (\<lambda>remote_files.
     io_bind (print Getting_local_files) (\<lambda>_.
     io_bind (io_lift (get_local_files fs (walk fs) [])) (\<lambda>local_files.
       io_return (remote_files, local_files))))))"

definition transfer ::
  "runtime \<Rightarrow> bool \<Rightarrow> ftp_server \<Rightarrow> 't local_fs \<Rightarrow> string
     \<Rightarrow> remote_file list \<times> (ppath \<times> 't file_info) list \<Rightarrow> unit io" where
  "transfer rt force srv fs ftp_path found =
     io_bind (look_for_changes rt force (fst found) (snd found)) (\<lambda>changed_files.
     io_bind (mirror_directories rt srv fs ftp_path) (\<lambda>_.
       upload_files srv fs ftp_path changed_files))"

definition finish ::
  "runtime \<Rightarrow> ftp_server \<Rightarrow> string \<Rightarrow> remote_file list \<times> (ppath \<times> 't file_info) list \<Rightarrow> unit io" where
  "finish rt srv ftp_path found =
     io_bind (print Checking_for_remote_files_to_delete) (\<lambda>_.
     io_bind (delete_remote_files_not_in_local rt srv (fst found) (snd found)
                local_site_path ftp_path) (\<lambda>_.
       ftp_cmd srv Quit))"

text \<open>
  \<open>planned_deletes\<close> is the list of \<^verbatim>\<open>delete\<close> calls that the deletion engine makes for
  the remote and local files found by \<open>survey\<close>; the force flag is not among its
  arguments.
\<close>

definition planned_deletes ::
  "runtime \<Rightarrow> string \<Rightarrow> remote_file list \<times> (ppath \<times> 'v) list \<Rightarrow> ftp_call list" where
  "planned_deletes rt ftp_path found =
     (case files_to_delete rt (fst found) (snd found) local_site_path of
        Inl e \<Rightarrow> []
      | Inr to_delete \<Rightarrow> map (\<lambda>p. Delete (joinpath (path_of ftp_path) p)) to_delete)"

subsection \<open>What the remote enumeration is meant to return\<close>

text \<open>
  For a server whose listings do not change, \<open>listing p facts\<close> is its answer to
  \<^verbatim>\<open>mlsd(p, facts)\<close>. \<open>child\<close> is the step from a directory to an entry of its listing
  that has type \<^verbatim>\<open>dir\<close>; the directories reachable from the root are its reflexive
  transitive closure. \<open>files_in\<close> is the list of the entries of type \<^verbatim>\<open>file\<close> of one
  listing, each with its \<^verbatim>\<open>modify\<close> and \<^verbatim>\<open>size\<close> facts, and \<open>has_file_facts\<close> says that
  every entry has a type and every file both facts.
\<close>

definition child :: "(ppath \<Rightarrow> string list \<Rightarrow> exn + entry list) \<Rightarrow> ppath \<Rightarrow> ppath \<Rightarrow> bool" where
  "child listing d c \<longleftrightarrow>
     (case listing d [''type''] of
        Inl e \<Rightarrow> False
      | Inr entries \<Rightarrow>
          c \<in> set (map (\<lambda>f. join_name d (fst f))
                     (filter (\<lambda>f. snd f ''type'' = Some ''dir'') entries)))"

definition files_in :: "ppath \<Rightarrow> entry list \<Rightarrow> remote_file list" where
  "files_in d entries =
     map (\<lambda>f. (join_name d (fst f), the (snd f ''modify''), the (snd f ''size'')))
       (filter (\<lambda>f. snd f ''type'' = Some ''file'') entries)"

definition has_file_facts :: "entry list \<Rightarrow> bool" where
  "has_file_facts entries \<longleftrightarrow>
     list_all (\<lambda>f. snd f ''type'' \<noteq> None \<and>
                   (snd f ''type'' \<noteq> Some ''file'' \<or>
                    (snd f ''modify'' \<noteq> None \<and> snd f ''size'' \<noteq> None))) entries"

text \<open>
  \<open>well_listed listing k d\<close>: the tree below \<open>d\<close> can be listed with \<open>k\<close> nested calls of
  \<^verbatim>\<open>recursive_get_dirs\<close>. The listing of \<open>d\<close> succeeds, every entry has a type, and every
  entry of type \<^verbatim>\<open>dir\<close> is well listed with one call less. In particular the tree is less
  than \<open>k\<close> directories deep, and it is finite.
\<close>

fun well_listed :: "(ppath \<Rightarrow> string list \<Rightarrow> exn + entry list) \<Rightarrow> nat \<Rightarrow> ppath \<Rightarrow> bool" where
  "well_listed listing 0 d = False"
| "well_listed listing (Suc k) d =
     (case listing d [''type''] of
        Inl e \<Rightarrow> False
      | Inr entries \<Rightarrow>
          list_all (\<lambda>f. case snd f ''type'' of
                           None \<Rightarrow> False
                         | Some t \<Rightarrow> t = ''dir'' \<longrightarrow> well_listed listing k (join_name d (fst f)))
            entries)"

subsection \<open>What the change detection is meant to select\<close>

text \<open>
  The condition of the specification for one item of \<^verbatim>\<open>local_files\<close>: no remote file
  has the same relative path, or the first one that has reports a smaller size.
\<close>

definition needs_upload :: "runtime \<Rightarrow> remote_file list \<Rightarrow> ppath \<times> 't file_info \<Rightarrow> bool" where
  "needs_upload rt remote_files item =
     (case relative_to (fst item) (path_of local_site_path) of
        Inl e \<Rightarrow> False
      | Inr remote_file \<Rightarrow>
          (case find (\<lambda>f. relative_to (fst f) dot = Inr remote_file) remote_files of
             None \<Rightarrow> True
           | Some f \<Rightarrow>
               (case int_of_str rt (snd (snd f)) of
                  None \<Rightarrow> False
                | Some n \<Rightarrow> n < info_size (snd item))))"

subsection \<open>A small run\<close>

text \<open>
  A remote tree with \<^verbatim>\<open>b.txt\<close>, \<^verbatim>\<open>a.txt\<close> (15 bytes) and \<^verbatim>\<open>old/x.txt\<close>, a local tree
  with \<^verbatim>\<open>a.txt\<close> (20 bytes) and \<^verbatim>\<open>sub/c.txt\<close>, and a server on which the calls in
  \<open>failing\<close> raise \<^verbatim>\<open>error_perm\<close>. \<open>odd_size_listing\<close> is a remote tree whose only file,
  \<^verbatim>\<open>a.txt\<close>, reports the size \<^verbatim>\<open>abc\<close>. \<open>decimal\<close> stands for \<^verbatim>\<open>int()\<close> on the strings of
  this example: it reads a non-empty string of ASCII digits and rejects every other
  string.
\<close>

fun digits_value :: "nat \<Rightarrow> string \<Rightarrow> nat option" where
  "digits_value acc [] = Some acc"
| "digits_value acc (c # cs) =
     (let d = (of_char c :: nat)
      in if 48 \<le> d \<and> d \<le> 57 then digits_value (10 * acc + (d - 48)) cs else None)"

definition decimal :: "string \<Rightarrow> int option" where
  "decimal s = (if s = [] then None else map_option int (digits_value 0 s))"

definition example_rt :: runtime where
  "example_rt = \<lparr>int_of_str = decimal, set_iter = (\<lambda>xs. xs), frames = 5\<rparr>"

definition file_facts :: "string \<Rightarrow> string \<rightharpoonup> string" where
  "file_facts sz = [''type'' \<mapsto> ''file'', ''size'' \<mapsto> sz, ''modify'' \<mapsto> ''20240101120000'']"

definition example_listing :: "ppath \<Rightarrow> string list \<Rightarrow> exn + entry list" where
  "example_listing p facts =
     (if parts p = [] \<or> parts p = [''www''] then
        Inr [(''.'', [''type'' \<mapsto> ''cdir'']),
             (''b.txt'', file_facts ''7''),
             (''a.txt'', file_facts ''15''),
             (''old'', [''type'' \<mapsto> ''dir''])]
      else if parts p = [''old''] \<or> parts p = [''www'', ''old''] then
        Inr [(''x.txt'', file_facts ''3'')]
      else Inl (Error_perm ''550''))"

definition static_server ::
  "(ppath \<Rightarrow> string list \<Rightarrow> exn + entry list) \<Rightarrow> ftp_call list \<Rightarrow> ftp_server" where
  "static_server listing failing =
     \<lparr>cmd_reply = (\<lambda>cs. if last cs \<in> set failing then Some (Error_perm ''550'') else None),
      mlsd_reply = (\<lambda>cs. case last cs of
                             Mlsd p facts \<Rightarrow> listing p facts
                           | _ \<Rightarrow> Inl (OtherException ''not a listing''))\<rparr>"

definition example_server :: "ftp_call list \<Rightarrow> ftp_server" where
  "example_server failing = static_server example_listing failing"

definition odd_size_listing :: "ppath \<Rightarrow> string list \<Rightarrow> exn + entry list" where
  "odd_size_listing p facts =
     (if parts p = [] \<or> parts p = [''www''] then Inr [(''a.txt'', file_facts ''abc'')]
      else Inl (Error_perm ''550''))"

definition example_fs :: "nat local_fs" where
  "example_fs =
     \<lparr>walk = [(path_of ''output'', [''sub''], [''a.txt'']),
              (path_of ''output/sub'', [], [''c.txt''])],
      getmtime = (\<lambda>p. Inr 0),
      getsize = (\<lambda>p. if p = path_of ''output/a.txt'' then Inr 20 else Inr 5),
      open_rb = (\<lambda>p. Inr ''data'')\<rparr>"

definition example_environ :: "string \<rightharpoonup> string" where
  "example_environ =
     [''FTP_HOST'' \<mapsto> ''host'', ''FTP_USERNAME'' \<mapsto> ''user'',
      ''FTP_PASSWORD'' \<mapsto> ''secret'', ''FTP_PATH'' \<mapsto> ''/www'']"

definition example_remote_files :: "remote_file list" where
  "example_remote_files =
     [(Path Relative [''b.txt''], ''20240101120000'', ''7''),
      (Path Relative [''a.txt''], ''20240101120000'', ''15''),
      (Path Relative [''old'', ''x.txt''], ''20240101120000'', ''3'')]"

definition example_local_files :: "(ppath \<times> nat file_info) list" where
  "example_local_files =
     [(Path Relative [''output'', ''a.txt''], \<lparr>info_modify = 0, info_size = 20\<rparr>),
      (Path Relative [''output'', ''sub'', ''c.txt''], \<lparr>info_modify = 0, info_size = 5\<rparr>)]"

text \<open>The run of the example in which the first upload fails.\<close>

definition failed_upload_trace :: state where
  "failed_upload_trace =
     \<lparr>calls =
        [Connect ''host'' 21, Login ''user'' ''secret'', Prot_p, Cwd ''/www'',
         Mlsd (Path Relative []) [''type''],
         Mlsd (Path Relative [''old'']) [''type''],
         Mlsd (Path Relative []) [''size'', ''modify'', ''type''],
         Mlsd (Path Relative [''old'']) [''size'', ''modify'', ''type''],
         Mlsd (Path Root [''www'']) [''type''],
         Mlsd (Path Root [''www'', ''old'']) [''type''],
         Mkd (Path Relative [''sub'']),
         Storbinary (Path Root [''www'', ''a.txt'']) ''data''],
      printed =
        [Connecting, Getting_remote_files, Getting_local_files, Looking_for_changes,
         Mirroring_directories, Uploading (Path Relative [''output'', ''a.txt'']),
         Error_uploading (Error_perm ''550''), Finished_banner]\<rparr>"

text \<open>The run of the example on a server that never raises, without and with the force flag.\<close>

definition full_run_calls :: "ftp_call list" where
  "full_run_calls =
     [Connect ''host'' 21, Login ''user'' ''secret'', Prot_p, Cwd ''/www'',
      Mlsd (Path Relative []) [''type''],
      Mlsd (Path Relative [''old'']) [''type''],
      Mlsd (Path Relative []) [''size'', ''modify'', ''type''],
      Mlsd (Path Relative [''old'']) [''size'', ''modify'', ''type''],
      Mlsd (Path Root [''www'']) [''type''],
      Mlsd (Path Root [''www'', ''old'']) [''type''],
      Mkd (Path Relative [''sub'']),
      Storbinary (Path Root [''www'', ''a.txt'']) ''data'',
      Storbinary (Path Root [''www'', ''sub'', ''c.txt'']) ''data'',
      Delete (Path Root [''www'', ''b.txt'']),
      Delete (Path Root [''www'', ''old'', ''x.txt'']),
      Quit]"

definition full_run_trace :: state where
  "full_run_trace =
     \<lparr>calls = full_run_calls,
      printed =
        [Connecting, Getting_remote_files, Getting_local_files, Looking_for_changes,
         Mirroring_directories,
         Uploading (Path Relative [''output'', ''a.txt'']),
         Uploading (Path Relative [''output'', ''sub'', ''c.txt'']),
         Checking_for_remote_files_to_delete, Deleting_remote_files 2,
         Deleted (Path Root [''www'', ''b.txt'']),
         Deleted (Path Root [''www'', ''old'', ''x.txt'']),
         Finished_banner]\<rparr>"

definition forced_run_trace :: state where
  "forced_run_trace =
     \<lparr>calls = full_run_calls,
      printed =
        [Connecting, Getting_remote_files, Getting_local_files, Looking_for_changes,
         Force_option_given, Mirroring_directories,
         Uploading (Path Relative [''output'', ''a.txt'']),
         Uploading (Path Relative [''output'', ''sub'', ''c.txt'']),
         Checking_for_remote_files_to_delete, Deleting_remote_files 2,
         Deleted (Path Root [''www'', ''b.txt'']),
         Deleted (Path Root [''www'', ''old'', ''x.txt'']),
         Finished_banner]\<rparr>"

definition mirrored_trace :: state where
  "mirrored_trace =
     \<lparr>calls = [Mlsd (Path Root [''www'']) [''type''],
               Mlsd (Path Root [''www'', ''old'']) [''type''],
               Mkd (Path Relative [''sub''])],
      printed = [Mirroring_directories]\<rparr>"

text \<open>The forced run against the remote tree with the odd size.\<close>

definition odd_size_trace :: state where
  "odd_size_trace =
     \<lparr>calls =
        [Connect ''host'' 21, Login ''user'' ''secret'', Prot_p, Cwd ''/www'',
         Mlsd (Path Relative []) [''type''],
         Mlsd (Path Relative []) [''size'', ''modify'', ''type'']],
      printed =
        [Connecting, Getting_remote_files, Getting_local_files, Looking_for_changes,
         Error_uploading ValueError, Finished_banner]\<rparr>"

section \<open>Lemmas\<close>

subsection \<open>Paths and the example\<close>

lemma strip_prefix_Some: "strip_prefix xs ys = Some zs \<longleftrightarrow> ys = xs @ zs"
  by (induction xs ys rule: strip_prefix.induct) auto

lemma dot_eq: "dot = Path Relative []"
  by (simp add: dot_def path_of_def splitroot_def)

lemma local_site_path_eq: "path_of local_site_path = Path Relative [''output'']"
  by (simp add: local_site_path_def path_of_def splitroot_def)

lemmas path_simps = path_of_def splitroot_def join_name_def joinpath_def relative_to_def
  local_site_path_def dot_def

lemma ex_local: "get_local_files example_fs (walk example_fs) [] = Inr example_local_files"
  by (simp add: example_fs_def example_local_files_def path_simps)

lemma ex_look: "look_for_changes example_rt False example_remote_files example_local_files init =
     (Inr [Path Relative [''output'', ''a.txt''], Path Relative [''output'', ''sub'', ''c.txt'']],
      say Looking_for_changes init)"
  by (simp add: look_for_changes_def io_bind_def io_lift_def io_return_def print_def
        example_rt_def example_remote_files_def example_local_files_def path_simps decimal_def)

subsection \<open>Change detection\<close>

lemma find_remote_find:
  "find_remote files p = Inr r \<Longrightarrow> find (\<lambda>f. relative_to (fst f) dot = Inr p) files = r"
  by (induction files) (auto split: sum.splits if_splits)

lemma find_changes_filter:
  "find_changes rt remote_files local_files acc = Inr changed \<Longrightarrow>
     changed = acc @ map fst (filter (needs_upload rt remote_files) local_files)"
proof (induction local_files arbitrary: acc)
  case Nil
  then show ?case by simp
next
  case (Cons item rest)
  obtain f info where item: "item = (f, info)" by (cases item)
  from Cons.prems item show ?case
    by (auto simp: needs_upload_def split: sum.splits option.splits if_splits
             dest!: Cons.IH find_remote_find)
qed

lemma find_changes_relative:
  "find_changes rt remote_files local_files acc = Inr changed \<Longrightarrow>
     (f, info) \<in> set local_files \<Longrightarrow> \<exists>p. relative_to f (path_of local_site_path) = Inr p"
proof (induction local_files arbitrary: acc)
  case Nil
  then show ?case by simp
next
  case (Cons item rest)
  obtain g i where item: "item = (g, i)" by (cases item)
  from Cons.prems item show ?case
    by (auto split: sum.splits option.splits if_splits dest: Cons.IH)
qed

lemma find_changes_parsed:
  "find_changes rt remote_files local_files acc = Inr changed \<Longrightarrow>
     (f, info) \<in> set local_files \<Longrightarrow> relative_to f (path_of local_site_path) = Inr p \<Longrightarrow>
     find (\<lambda>f. relative_to (fst f) dot = Inr p) remote_files = Some r \<Longrightarrow>
     \<exists>n. int_of_str rt (snd (snd r)) = Some n"
proof (induction local_files arbitrary: acc)
  case Nil
  then show ?case by simp
next
  case (Cons item rest)
  obtain g i where item: "item = (g, i)" by (cases item)
  from Cons.prems item show ?case
    by (auto split: sum.splits option.splits if_splits dest: Cons.IH dest!: find_remote_find)
qed

lemma dict_set_keys: "fst ` set (dict_set k v kvs) = insert k (fst ` set kvs)"
proof (induction kvs)
  case Nil
  then show ?case by simp
next
  case (Cons kv kvs)
  obtain k' v' where kv: "kv = (k', v')" by (cases kv)
  show ?case
  proof (cases "k' = k")
    case True
    with kv show ?thesis by simp
  next
    case False
    with kv Cons.IH show ?thesis by (simp add: insert_commute)
  qed
qed

lemma dict_set_distinct: "distinct (map fst kvs) \<Longrightarrow> distinct (map fst (dict_set k v kvs))"
proof (induction kvs)
  case Nil
  then show ?case by simp
next
  case (Cons kv kvs)
  obtain k' v' where kv: "kv = (k', v')" by (cases kv)
  have "fst ` set (dict_set k v kvs) = insert k (fst ` set kvs)"
    by (rule dict_set_keys)
  with Cons kv show ?case by auto
qed

lemma stat_files_distinct:
  "stat_files fs root files acc = Inr local_files \<Longrightarrow> distinct (map fst acc) \<Longrightarrow>
     distinct (map fst local_files)"
  by (induction files arbitrary: acc)
     (auto simp: Let_def split: sum.splits dest: dict_set_distinct)

lemma get_local_files_distinct:
  "get_local_files fs w acc = Inr local_files \<Longrightarrow> distinct (map fst acc) \<Longrightarrow>
     distinct (map fst local_files)"
proof (induction w arbitrary: acc)
  case Nil
  then show ?case by simp
next
  case (Cons t rest)
  obtain root dirs files where t: "t = (root, dirs, files)" by (cases t)
  from Cons.prems t show ?case
    by (auto split: sum.splits dest: stat_files_distinct Cons.IH)
qed

lemma look_for_changes_no_force:
  "look_for_changes rt False remote_files local_files st = (Inr changed, st') \<Longrightarrow>
     find_changes rt remote_files local_files [] = Inr changed"
  by (auto simp: look_for_changes_def io_bind_def io_lift_def io_return_def print_def
           split: sum.splits prod.splits)

lemma distinct_keys_filter:
  "distinct (map fst kvs) \<Longrightarrow> (k, v) \<in> set kvs \<Longrightarrow>
     k \<in> set (map fst (filter P kvs)) \<longleftrightarrow> P (k, v)"
  by (induction kvs) (auto simp: rev_image_eqI)

subsection \<open>Parts of the run and the trace\<close>

lemma phaseI:
  assumes "\<And>st r st'. m st = (r, st') \<Longrightarrow>
     \<exists>cs ms. calls st' = calls st @ cs \<and> printed st' = printed st @ ms \<and>
             list_all C cs \<and> list_all M ms \<and>
             (\<forall>i e. i < length cs \<longrightarrow> \<not> is_delete (cs ! i) \<longrightarrow>
                    failure srv (calls st @ take (Suc i) cs) = Some e \<longrightarrow>
                    Suc i = length cs \<and> r = Inl e)"
  shows "phase srv C M m"
  using assms unfolding phase_def by blast

lemma phaseD:
  assumes "phase srv C M m" and "m st = (r, st')"
  shows "\<exists>cs ms. calls st' = calls st @ cs \<and> printed st' = printed st @ ms \<and>
             list_all C cs \<and> list_all M ms \<and>
             (\<forall>i e. i < length cs \<longrightarrow> \<not> is_delete (cs ! i) \<longrightarrow>
                    failure srv (calls st @ take (Suc i) cs) = Some e \<longrightarrow>
                    Suc i = length cs \<and> r = Inl e)"
  using assms unfolding phase_def by blast

lemma phase_return: "phase srv C M (io_return x)"
  by (rule phaseI) (simp add: io_return_def)

lemma phase_lift: "phase srv C M (io_lift r)"
  by (rule phaseI) (simp add: io_lift_def)

lemma phase_print: "M m \<Longrightarrow> phase srv C M (print m)"
  by (rule phaseI) (auto simp: print_def say_def)

lemma phase_ftp_cmd: "C c \<Longrightarrow> \<not> is_mlsd c \<Longrightarrow> phase srv C M (ftp_cmd srv c)"
  by (rule phaseI)
     (cases c; auto simp: ftp_cmd_def Let_def failure_def split: option.splits)

lemma phase_mlsd: "C (Mlsd path facts) \<Longrightarrow> phase srv C M (mlsd srv path facts)"
  by (rule phaseI) (auto simp: mlsd_def Let_def failure_def split: sum.splits)

lemma phase_weaken:
  assumes "phase srv C M m" and "\<And>c. C c \<Longrightarrow> C' c" and "\<And>x. M x \<Longrightarrow> M' x"
  shows "phase srv C' M' m"
proof (rule phaseI)
  fix st r st'
  assume run: "m st = (r, st')"
  from phaseD [OF assms(1) run] obtain cs ms
    where "calls st' = calls st @ cs" "printed st' = printed st @ ms"
      "list_all C cs" "list_all M ms"
      "\<forall>i e. i < length cs \<longrightarrow> \<not> is_delete (cs ! i) \<longrightarrow>
                 failure srv (calls st @ take (Suc i) cs) = Some e \<longrightarrow>
                 Suc i = length cs \<and> r = Inl e"
    by blast
  moreover from \<open>list_all C cs\<close> assms(2) have "list_all C' cs"
    by (auto simp: list_all_iff)
  moreover from \<open>list_all M ms\<close> assms(3) have "list_all M' ms"
    by (auto simp: list_all_iff)
  ultimately show "\<exists>cs ms. calls st' = calls st @ cs \<and> printed st' = printed st @ ms \<and>
             list_all C' cs \<and> list_all M' ms \<and>
             (\<forall>i e. i < length cs \<longrightarrow> \<not> is_delete (cs ! i) \<longrightarrow>
                    failure srv (calls st @ take (Suc i) cs) = Some e \<longrightarrow>
                    Suc i = length cs \<and> r = Inl e)"
    by blast
qed

lemma phase_bind:
  assumes m: "phase srv C M m" and f: "\<And>x. phase srv C M (f x)"
  shows "phase srv C M (io_bind m f)"
proof (rule phaseI)
  fix st r st'
  assume run: "io_bind m f st = (r, st')"
  obtain r1 s1 where m1: "m st = (r1, s1)" by (cases "m st")
  from phaseD [OF m m1] obtain cs1 ms1
    where c1: "calls s1 = calls st @ cs1" and p1: "printed s1 = printed st @ ms1"
      and C1: "list_all C cs1" and M1: "list_all M ms1"
      and a1: "\<forall>i e. i < length cs1 \<longrightarrow> \<not> is_delete (cs1 ! i) \<longrightarrow>
                 failure srv (calls st @ take (Suc i) cs1) = Some e \<longrightarrow>
                 Suc i = length cs1 \<and> r1 = Inl e"
    by blast
  show "\<exists>cs ms. calls st' = calls st @ cs \<and> printed st' = printed st @ ms \<and>
             list_all C cs \<and> list_all M ms \<and>
             (\<forall>i e. i < length cs \<longrightarrow> \<not> is_delete (cs ! i) \<longrightarrow>
                    failure srv (calls st @ take (Suc i) cs) = Some e \<longrightarrow>
                    Suc i = length cs \<and> r = Inl e)"
  proof (cases r1)
    case (Inl e1)
    with run m1 have r: "r = Inl e1" and s: "st' = s1" by (simp_all add: io_bind_def)
    from a1 Inl r
    have "\<forall>i e. i < length cs1 \<longrightarrow> \<not> is_delete (cs1 ! i) \<longrightarrow>
                 failure srv (calls st @ take (Suc i) cs1) = Some e \<longrightarrow>
                 Suc i = length cs1 \<and> r = Inl e"
      by auto
    with c1 p1 C1 M1 s show ?thesis by blast
  next
    case (Inr x)
    with run m1 have f1: "f x s1 = (r, st')" by (simp add: io_bind_def)
    from phaseD [OF f [of x] f1] obtain cs2 ms2
      where c2: "calls st' = calls s1 @ cs2" and p2: "printed st' = printed s1 @ ms2"
        and C2: "list_all C cs2" and M2: "list_all M ms2"
        and a2: "\<forall>i e. i < length cs2 \<longrightarrow> \<not> is_delete (cs2 ! i) \<longrightarrow>
                 failure srv (calls s1 @ take (Suc i) cs2) = Some e \<longrightarrow>
                 Suc i = length cs2 \<and> r = Inl e"
      by blast
    have ab: "Suc i = length (cs1 @ cs2) \<and> r = Inl e"
      if i: "i < length (cs1 @ cs2)" and nd: "\<not> is_delete ((cs1 @ cs2) ! i)"
        and fl: "failure srv (calls st @ take (Suc i) (cs1 @ cs2)) = Some e" for i e
    proof (cases "i < length cs1")
      case True
      then have tk: "take (Suc i) (cs1 @ cs2) = take (Suc i) cs1" by simp
      from fl have "failure srv (calls st @ take (Suc i) cs1) = Some e"
        unfolding tk .
      moreover from True nd have "\<not> is_delete (cs1 ! i)" by (simp add: nth_append)
      ultimately have "r1 = Inl e" using True a1 by blast
      with Inr show ?thesis by simp
    next
      case False
      define j where "j = i - length cs1"
      from False i have j: "j < length cs2" by (simp add: j_def)
      from False have tk: "take (Suc i) (cs1 @ cs2) = cs1 @ take (Suc j) cs2"
        by (simp add: j_def Suc_diff_le)
      from False nd have "\<not> is_delete (cs2 ! j)" by (simp add: nth_append j_def)
      moreover from fl have "failure srv (calls s1 @ take (Suc j) cs2) = Some e"
        unfolding tk c1 by simp
      ultimately have "Suc j = length cs2 \<and> r = Inl e" using j a2 by blast
      with False show ?thesis by (auto simp: j_def)
    qed
    from c1 c2 p1 p2 C1 C2 M1 M2
    have "calls st' = calls st @ (cs1 @ cs2) \<and> printed st' = printed st @ (ms1 @ ms2) \<and>
          list_all C (cs1 @ cs2) \<and> list_all M (ms1 @ ms2)"
      by simp
    with ab show ?thesis by blast
  qed
qed

lemma phase_if:
  "(b \<Longrightarrow> phase srv C M m) \<Longrightarrow> (\<not> b \<Longrightarrow> phase srv C M n) \<Longrightarrow> phase srv C M (if b then m else n)"
  by simp


lemma phase_get_dirs:
  "phase srv is_mlsd (\<lambda>m. False) (recursive_get_dirs n srv path remote_dirs)"
  "phase srv is_mlsd (\<lambda>m. False) (scan_entries n srv path listing remote_dirs)"
proof (induction n srv path remote_dirs and n srv path listing remote_dirs
       rule: recursive_get_dirs_scan_entries.induct)
  case (1 srv path remote_dirs)
  show ?case by (simp add: phase_lift)
next
  case (2 n srv path remote_dirs)
  then show ?case by (auto intro!: phase_bind phase_mlsd)
next
  case (3 n srv path remote_dirs)
  show ?case by (simp add: phase_return)
next
  case (4 n srv path file_info rest remote_dirs)
  then show ?case by (auto intro!: phase_bind phase_lift)
qed

lemma phase_get_remote_dirs: "phase srv is_mlsd (\<lambda>m. False) (get_remote_dirs n srv path)"
  by (simp add: get_remote_dirs_def phase_get_dirs)

lemma phase_list_remote_files:
  "phase srv is_mlsd (\<lambda>m. False) (list_remote_files srv dirs remote_files)"
  by (induction dirs arbitrary: remote_files)
     (auto intro!: phase_bind phase_lift phase_mlsd phase_return)

lemma phase_get_remote_files: "phase srv is_mlsd (\<lambda>m. False) (get_remote_files n srv path)"
  by (auto simp: get_remote_files_def intro!: phase_bind phase_get_remote_dirs phase_list_remote_files)

lemma phase_look_for_changes:
  "phase srv (\<lambda>c. False) (\<lambda>m. m = Looking_for_changes \<or> m = Force_option_given)
     (look_for_changes rt force remote_files local_files)"
  by (auto simp: look_for_changes_def intro!: phase_bind phase_lift phase_print phase_return)

lemma phase_make_dirs: "phase srv is_mkd (\<lambda>m. False) (make_dirs srv remote_dirs local_dirs)"
  by (induction local_dirs) (auto intro!: phase_bind phase_ftp_cmd phase_return)

lemma phase_mirror_directories:
  "phase srv (\<lambda>c. is_mlsd c \<or> is_mkd c) (\<lambda>m. m = Mirroring_directories)
     (mirror_directories rt srv fs ftp_path)"
  unfolding mirror_directories_def
  by (intro phase_bind phase_print phase_lift
        phase_weaken [OF phase_get_remote_dirs] phase_weaken [OF phase_make_dirs]) auto

lemma phase_upload_files:
  "phase srv is_storbinary (\<lambda>m. \<exists>file. m = Uploading file) (upload_files srv fs ftp_path changed_files)"
  by (induction changed_files)
     (auto intro!: phase_bind phase_lift phase_print phase_ftp_cmd phase_return)

lemma phase_delete_one: "phase srv is_delete deletion_msg (delete_one srv p)"
  by (rule phaseI)
     (auto simp: delete_one_def io_try_def io_bind_def ftp_cmd_def Let_def print_def say_def
        deletion_msg_def split: option.splits exn.splits)

lemma phase_delete_files: "phase srv is_delete deletion_msg (delete_files srv ftp_path to_delete)"
  by (induction to_delete) (auto intro!: phase_bind phase_delete_one phase_return)

lemma phase_delete_remote_files_not_in_local:
  "phase srv is_delete deletion_msg
     (delete_remote_files_not_in_local rt srv remote_files local_files site ftp_path)"
  unfolding delete_remote_files_not_in_local_def
  by (intro phase_bind phase_lift phase_if phase_print phase_delete_files)
     (simp_all add: deletion_msg_def)

lemma phase_connect:
  "phase srv (\<lambda>c. \<not> is_mlsd c \<and> \<not> is_mkd c \<and> \<not> is_rmd c \<and> \<not> is_storbinary c \<and> \<not> is_delete c)
     (\<lambda>m. m = Connecting) (connect srv ftp_host ftp_username ftp_password ftp_path)"
  unfolding connect_def
  by (intro phase_bind phase_print phase_ftp_cmd) simp_all


subsection \<open>The deletion engine\<close>

lemma map_raise_Inr:
  "map_raise f xs = Inr ys \<Longrightarrow> length ys = length xs \<and> (\<forall>i<length xs. f (xs ! i) = Inr (ys ! i))"
proof (induction xs arbitrary: ys)
  case Nil
  then show ?case by simp
next
  case (Cons x xs)
  from Cons.prems obtain y ys' where y: "f x = Inr y" and ys': "map_raise f xs = Inr ys'"
    and ys: "ys = y # ys'"
    by (auto split: sum.splits)
  from Cons.IH [OF ys'] y ys show ?case
    by (auto simp: nth_Cons split: nat.splits)
qed

lemma map_raise_set:
  "map_raise f xs = Inr ys \<Longrightarrow> y \<in> set ys \<longleftrightarrow> (\<exists>x\<in>set xs. f x = Inr y)"
proof (induction xs arbitrary: ys)
  case Nil
  then show ?case by auto
next
  case (Cons x xs)
  from Cons.prems obtain z ys' where z: "f x = Inr z" and ys': "map_raise f xs = Inr ys'"
    and ys: "ys = z # ys'"
    by (auto split: sum.splits)
  from Cons.IH [OF ys'] z ys show ?case by auto
qed

lemma relative_to_Relative: "relative_to p other = Inr q \<Longrightarrow> anchor q = Relative"
  by (auto simp: relative_to_def split: if_splits option.splits)

lemma joinpath_Relative_inject:
  "anchor p = Relative \<Longrightarrow> anchor q = Relative \<Longrightarrow> joinpath a p = joinpath a q \<Longrightarrow> p = q"
  by (cases p; cases q) (simp add: joinpath_def)

lemma delete_one_run:
  "delete_one srv q st =
     (Inr (), st\<lparr>calls := calls st @ [Delete q],
                printed := printed st @ [delete_report srv (calls st @ [Delete q]) q]\<rparr>)"
  by (auto simp: delete_one_def io_try_def io_bind_def ftp_cmd_def Let_def print_def say_def
        delete_report_def split: option.splits exn.splits)

lemma delete_files_run:
  "delete_files srv ftp_path ps st = (r, st') \<Longrightarrow>
     r = Inr () \<and>
     calls st' = calls st @ map (\<lambda>p. Delete (joinpath (path_of ftp_path) p)) ps \<and>
     (\<exists>ms. printed st' = printed st @ ms \<and>
        (\<forall>i<length ps.
           delete_report srv
             (calls st @ map (\<lambda>p. Delete (joinpath (path_of ftp_path) p)) (take (Suc i) ps))
             (joinpath (path_of ftp_path) (ps ! i)) \<in> set ms))"
proof (induction ps arbitrary: st)
  case Nil
  then show ?case by (simp add: io_return_def)
next
  case (Cons p ps)
  let ?D = "\<lambda>p. Delete (joinpath (path_of ftp_path) p)"
  let ?q = "joinpath (path_of ftp_path) p"
  let ?s1 = "st\<lparr>calls := calls st @ [Delete ?q],
                 printed := printed st @ [delete_report srv (calls st @ [Delete ?q]) ?q]\<rparr>"
  from Cons.prems have rest: "delete_files srv ftp_path ps ?s1 = (r, st')"
    by (simp add: io_bind_def delete_one_run)
  from Cons.IH [OF rest] obtain ms
    where r: "r = Inr ()"
      and c: "calls st' = calls ?s1 @ map ?D ps"
      and p: "printed st' = printed ?s1 @ ms"
      and rep: "\<forall>i<length ps. delete_report srv (calls ?s1 @ map ?D (take (Suc i) ps))
                  (joinpath (path_of ftp_path) (ps ! i)) \<in> set ms"
    by blast
  let ?ms = "delete_report srv (calls st @ [Delete ?q]) ?q # ms"
  have "\<forall>i<length (p # ps). delete_report srv (calls st @ map ?D (take (Suc i) (p # ps)))
          (joinpath (path_of ftp_path) ((p # ps) ! i)) \<in> set ?ms"
  proof (intro allI impI)
    fix i
    assume i: "i < length (p # ps)"
    show "delete_report srv (calls st @ map ?D (take (Suc i) (p # ps)))
            (joinpath (path_of ftp_path) ((p # ps) ! i)) \<in> set ?ms"
    proof (cases i)
      case 0
      then show ?thesis by simp
    next
      case (Suc j)
      with i have "j < length ps" by simp
      with rep have "delete_report srv (calls ?s1 @ map ?D (take (Suc j) ps))
                  (joinpath (path_of ftp_path) (ps ! j)) \<in> set ms"
        by blast
      with Suc show ?thesis by simp
    qed
  qed
  moreover from p have "printed st' = printed st @ ?ms" by simp
  moreover from c have "calls st' = calls st @ map ?D (p # ps)" by simp
  ultimately show ?case using r by blast
qed

lemma files_to_delete_set:
  assumes order: "\<forall>xs. distinct xs \<longrightarrow> distinct (set_iter rt xs) \<and> set (set_iter rt xs) = set xs"
    and locals: "map_raise (\<lambda>f. relative_to f (path_of site)) (map fst local_files) = Inr local_file_paths"
    and remotes: "map_raise (\<lambda>f. relative_to (fst f) (path_of ''.'')) remote_files = Inr remote_file_paths"
  shows "\<exists>to_delete. files_to_delete rt remote_files local_files site = Inr to_delete \<and>
           distinct to_delete \<and> set to_delete = set remote_file_paths - set local_file_paths"
proof -
  let ?xs = "remdups (filter (\<lambda>p. p \<notin> set local_file_paths) remote_file_paths)"
  have "distinct ?xs" by simp
  with order have "distinct (set_iter rt ?xs) \<and> set (set_iter rt ?xs) = set ?xs" by blast
  moreover have "set ?xs = set remote_file_paths - set local_file_paths" by auto
  moreover from locals remotes
  have "files_to_delete rt remote_files local_files site = Inr (set_iter rt ?xs)"
    by (simp add: files_to_delete_def)
  ultimately show ?thesis by simp
qed

lemma engine_run:
  assumes td: "files_to_delete rt remote_files local_files site = Inr to_delete"
    and run: "delete_remote_files_not_in_local rt srv remote_files local_files site ftp_path st = (r, st')"
  shows "r = Inr () \<and>
     calls st' = calls st @ map (\<lambda>p. Delete (joinpath (path_of ftp_path) p)) to_delete \<and>
     (\<exists>ms. printed st' = printed st @ ms \<and>
        (\<forall>i<length to_delete.
           delete_report srv
             (calls st @ map (\<lambda>p. Delete (joinpath (path_of ftp_path) p)) (take (Suc i) to_delete))
             (joinpath (path_of ftp_path) (to_delete ! i)) \<in> set ms))"
proof (cases "to_delete = []")
  case True
  with td run show ?thesis
    by (auto simp: delete_remote_files_not_in_local_def io_bind_def io_lift_def print_def say_def)
next
  case False
  let ?s1 = "say (Deleting_remote_files (length to_delete)) st"
  from False td run have "delete_files srv ftp_path to_delete ?s1 = (r, st')"
    by (simp add: delete_remote_files_not_in_local_def io_bind_def io_lift_def print_def)
  from delete_files_run [OF this] show ?thesis
    by (auto simp: say_def)
qed

subsection \<open>The three parts of the run\<close>

lemma io_bind_assoc: "io_bind (io_bind m f) g = io_bind m (\<lambda>x. io_bind (f x) g)"
  by (rule ext) (simp add: io_bind_def split: prod.splits sum.splits)

lemma io_bind_return: "io_bind (io_return x) f = f x"
  by (rule ext) (simp add: io_bind_def io_return_def)

lemma try_body_parts:
  "try_body rt force srv fs ftp_host ftp_username ftp_password ftp_path =
     io_bind (survey rt srv fs ftp_host ftp_username ftp_password ftp_path) (\<lambda>found.
     io_bind (transfer rt force srv fs ftp_path found) (\<lambda>_.
       finish rt srv ftp_path found))"
  by (simp add: try_body_def survey_def transfer_def finish_def io_bind_assoc io_bind_return)

lemma phase_survey:
  "phase srv (\<lambda>c. \<not> is_mkd c \<and> \<not> is_rmd c \<and> \<not> is_storbinary c \<and> \<not> is_delete c)
     (\<lambda>m. m \<noteq> Checking_for_remote_files_to_delete)
     (survey rt srv fs ftp_host ftp_username ftp_password ftp_path)"
  unfolding survey_def
  by (intro phase_bind phase_print phase_lift phase_return
        phase_weaken [OF phase_connect] phase_weaken [OF phase_get_remote_files])
     auto

lemma phase_transfer:
  "phase srv (\<lambda>c. \<not> is_rmd c \<and> \<not> is_delete c)
     (\<lambda>m. m \<noteq> Checking_for_remote_files_to_delete)
     (transfer rt force srv fs ftp_path found)"
  unfolding transfer_def
  by (intro phase_bind
        phase_weaken [OF phase_look_for_changes] phase_weaken [OF phase_mirror_directories]
        phase_weaken [OF phase_upload_files])
     auto

lemma phase_finish:
  "phase srv (\<lambda>c. \<not> is_mlsd c \<and> \<not> is_mkd c \<and> \<not> is_rmd c \<and> \<not> is_storbinary c)
     (\<lambda>m. True) (finish rt srv ftp_path found)"
  unfolding finish_def
  by (intro phase_bind phase_print phase_ftp_cmd
        phase_weaken [OF phase_delete_remote_files_not_in_local])
     auto

lemma phase_try_body:
  "phase srv (\<lambda>c. \<not> is_rmd c) (\<lambda>m. True)
     (try_body rt force srv fs ftp_host ftp_username ftp_password ftp_path)"
  unfolding try_body_parts
  by (intro phase_bind phase_weaken [OF phase_survey] phase_weaken [OF phase_transfer]
        phase_weaken [OF phase_finish])
     auto

lemma io_bind_cases:
  assumes "io_bind m f st = (r, st')"
  obtains (fails) e where "m st = (Inl e, st')" and "r = Inl e"
    | (continues) x s where "m st = (Inr x, s)" and "f x s = (r, st')"
  using assms by (auto simp: io_bind_def split: prod.splits sum.splits)

lemma failure_cmd_reply: "\<not> is_mlsd (last cs) \<Longrightarrow> failure srv cs = cmd_reply srv cs"
  by (cases "last cs") (simp_all add: failure_def)

lemma last_take_Suc: "j < length ys \<Longrightarrow> last (xs @ take (Suc j) ys) = ys ! j"
  by (simp add: take_Suc_conv_app_nth)

lemma list_all_nth_append:
  "list_all P xs \<Longrightarrow> i < length (xs @ ys) \<Longrightarrow> \<not> P ((xs @ ys) ! i) \<Longrightarrow> length xs \<le> i"
  by (rule ccontr) (auto simp: nth_append list_all_length)

lemma main_cases:
  assumes "main rt force environ srv fs = (out, st)"
  obtains (no_environment) e where "out = Traceback e" and "st = init"
  | (caught) ftp_host ftp_username ftp_password ftp_path e s where
      "environ ''FTP_HOST'' = Some ftp_host" and "environ ''FTP_USERNAME'' = Some ftp_username"
      and "environ ''FTP_PASSWORD'' = Some ftp_password" and "environ ''FTP_PATH'' = Some ftp_path"
      and "try_body rt force srv fs ftp_host ftp_username ftp_password ftp_path init = (Inl e, s)"
      and "out = Exit_normally" and "st = say Finished_banner (say (Error_uploading e) s)"
  | (completed) ftp_host ftp_username ftp_password ftp_path s where
      "environ ''FTP_HOST'' = Some ftp_host" and "environ ''FTP_USERNAME'' = Some ftp_username"
      and "environ ''FTP_PASSWORD'' = Some ftp_password" and "environ ''FTP_PATH'' = Some ftp_path"
      and "try_body rt force srv fs ftp_host ftp_username ftp_password ftp_path init = (Inr (), s)"
      and "out = Exit_normally" and "st = say Finished_banner s"
  using assms
  by (auto simp: main_def environ_get_def io_try_def print_def
           split: option.splits sum.splits prod.splits)

lemmas io_simps = io_bind_def io_return_def io_lift_def io_try_def print_def say_def ftp_cmd_def
  mlsd_def fact_def init_def Let_def

lemmas script_simps = main_def try_body_def connect_def get_remote_files_def get_remote_dirs_def
  look_for_changes_def mirror_directories_def delete_remote_files_not_in_local_def
  files_to_delete_def delete_one_def environ_get_def

lemmas example_simps = example_rt_def example_server_def static_server_def example_listing_def
  example_fs_def example_environ_def file_facts_def decimal_def odd_size_listing_def

lemma failed_upload_run:
  "main example_rt False example_environ
     (example_server [Storbinary (Path Root [''www'', ''a.txt'']) ''data'']) example_fs =
     (Exit_normally, failed_upload_trace)"
  by (simp add: script_simps io_simps example_simps path_simps failed_upload_trace_def
        eval_nat_numeral)

lemma full_run:
  "main example_rt False example_environ (example_server []) example_fs =
     (Exit_normally, full_run_trace)"
  by (simp add: script_simps io_simps example_simps path_simps full_run_trace_def
        full_run_calls_def eval_nat_numeral)

lemma forced_run:
  "main example_rt True example_environ (example_server []) example_fs =
     (Exit_normally, forced_run_trace)"
  by (simp add: script_simps io_simps example_simps path_simps forced_run_trace_def
        full_run_calls_def eval_nat_numeral)

lemma mirrored_run:
  "mirror_directories example_rt (example_server []) example_fs ''/www'' init =
     (Inr (), mirrored_trace)"
  by (simp add: script_simps io_simps example_simps path_simps mirrored_trace_def
        eval_nat_numeral)

subsection \<open>Mirroring and the deletions of a whole run\<close>

lemma make_dirs_prefix:
  "make_dirs srv remote_dirs local_dirs st = (r, st') \<Longrightarrow>
     \<exists>k. calls st' = calls st @ map Mkd (take k (filter (\<lambda>d. d \<notin> set remote_dirs) local_dirs)) \<and>
         (r = Inr () \<longrightarrow> calls st' = calls st @ map Mkd (filter (\<lambda>d. d \<notin> set remote_dirs) local_dirs))"
proof (induction local_dirs arbitrary: st)
  case Nil
  then show ?case by (simp add: io_return_def)
next
  case (Cons d local_dirs)
  show ?case
  proof (cases "d \<in> set remote_dirs")
    case True
    with Cons show ?thesis by simp
  next
    case False
    with Cons.prems
    have "io_bind (ftp_cmd srv (Mkd d)) (\<lambda>_. make_dirs srv remote_dirs local_dirs) st = (r, st')"
      by simp
    then show ?thesis
    proof (cases rule: io_bind_cases)
      case (fails e)
      then have "calls st' = calls st @ [Mkd d]" "r \<noteq> Inr ()"
        by (auto simp: ftp_cmd_def Let_def split: option.splits)
      with False show ?thesis by (intro exI [of _ 1]) simp
    next
      case (continues u s)
      then have c: "calls s = calls st @ [Mkd d]"
        by (auto simp: ftp_cmd_def Let_def split: option.splits)
      from Cons.IH [OF continues(2)] obtain k
        where k: "calls st' = calls s @ map Mkd (take k (filter (\<lambda>d. d \<notin> set remote_dirs) local_dirs))"
          and all: "r = Inr () \<longrightarrow>
                 calls st' = calls s @ map Mkd (filter (\<lambda>d. d \<notin> set remote_dirs) local_dirs)"
        by blast
      from k c False all show ?thesis by (intro exI [of _ "Suc k"]) simp
    qed
  qed
qed

lemma count_list_distinct: "distinct xs \<Longrightarrow> count_list xs x = (if x \<in> set xs then 1 else 0)"
  by (induction xs) auto

lemma count_list_Mkd: "count_list (map Mkd xs) (Mkd d) = count_list xs d"
  by (induction xs) auto

lemma count_list_take_le: "count_list (take k xs) x \<le> count_list xs x"
proof -
  have "count_list xs x = count_list (take k xs) x + count_list (drop k xs) x"
    by (simp only: count_list_append [symmetric] append_take_drop_id)
  then show ?thesis by simp
qed

lemma filter_none: "list_all (\<lambda>c. \<not> P c) cs \<Longrightarrow> filter P cs = []"
  by (induction cs) auto

lemma finish_deletes:
  assumes "finish rt srv ftp_path found st = (r, st')"
  shows "\<exists>cs. calls st' = calls st @ cs \<and> filter is_delete cs = planned_deletes rt ftp_path found"
proof -
  let ?s1 = "say Checking_for_remote_files_to_delete st"
  let ?engine = "delete_remote_files_not_in_local rt srv (fst found) (snd found)
                   local_site_path ftp_path"
  obtain r2 s2 where eng: "?engine ?s1 = (r2, s2)" by (cases "?engine ?s1")
  show ?thesis
  proof (cases "files_to_delete rt (fst found) (snd found) local_site_path")
    case (Inl e)
    with eng have "s2 = ?s1" "r2 = Inl e"
      by (auto simp: delete_remote_files_not_in_local_def io_bind_def io_lift_def)
    with assms eng Inl show ?thesis
      by (auto simp: finish_def io_bind_def print_def say_def planned_deletes_def)
  next
    case (Inr to_delete)
    from engine_run [OF Inr eng]
    have r2: "r2 = Inr ()"
      and c2: "calls s2 = calls ?s1 @ map (\<lambda>p. Delete (joinpath (path_of ftp_path) p)) to_delete"
      by blast+
    from assms eng r2 have "ftp_cmd srv Quit s2 = (r, st')"
      by (simp add: finish_def io_bind_def print_def)
    then have "calls st' = calls s2 @ [Quit]"
      by (auto simp: ftp_cmd_def Let_def split: option.splits)
    with c2 have "calls st' =
        calls st @ (map (\<lambda>p. Delete (joinpath (path_of ftp_path) p)) to_delete @ [Quit])"
      by (simp add: say_def)
    moreover have "filter is_delete
        (map (\<lambda>p. Delete (joinpath (path_of ftp_path) p)) to_delete @ [Quit]) =
        planned_deletes rt ftp_path found"
      by (simp add: planned_deletes_def Inr filter_map comp_def)
    ultimately show ?thesis by blast
  qed
qed

lemma deletes_of_a_run:
  assumes run: "main rt force environ srv fs = (out, st)"
    and reached: "Checking_for_remote_files_to_delete \<in> set (printed st)"
  shows "\<exists>ftp_host ftp_username ftp_password ftp_path found s.
           environ ''FTP_HOST'' = Some ftp_host \<and> environ ''FTP_USERNAME'' = Some ftp_username \<and>
           environ ''FTP_PASSWORD'' = Some ftp_password \<and> environ ''FTP_PATH'' = Some ftp_path \<and>
           survey rt srv fs ftp_host ftp_username ftp_password ftp_path init = (Inr found, s) \<and>
           filter is_delete (calls st) = planned_deletes rt ftp_path found"
proof -
  have body: "\<exists>found s1. survey rt srv fs ftp_host ftp_username ftp_password ftp_path init
                  = (Inr found, s1) \<and>
                filter is_delete (calls s) = planned_deletes rt ftp_path found"
    if tb: "try_body rt force srv fs ftp_host ftp_username ftp_password ftp_path init = (r, s)"
      and reached: "Checking_for_remote_files_to_delete \<in> set (printed s)"
    for ftp_host ftp_username ftp_password ftp_path r s
  proof -
    let ?survey = "survey rt srv fs ftp_host ftp_username ftp_password ftp_path"
    obtain r1 s1 where sv: "?survey init = (r1, s1)" by (cases "?survey init")
    from phaseD [OF phase_survey sv] obtain cs1 ms1
      where c1: "calls s1 = cs1" and p1: "printed s1 = ms1"
        and C1: "list_all (\<lambda>c. \<not> is_mkd c \<and> \<not> is_rmd c \<and> \<not> is_storbinary c \<and> \<not> is_delete c) cs1"
        and M1: "list_all (\<lambda>m. m \<noteq> Checking_for_remote_files_to_delete) ms1"
      by (auto simp: init_def)
    from C1 have f1: "filter is_delete cs1 = []"
      by (intro filter_none) (auto simp: list_all_iff)
    show ?thesis
    proof (cases r1)
      case (Inl e1)
      with tb sv have "s = s1" by (simp add: try_body_parts io_bind_def)
      with p1 M1 reached show ?thesis by (auto simp: list_all_iff)
    next
      case (Inr found)
      let ?transfer = "transfer rt force srv fs ftp_path found"
      obtain r2 s2 where tr: "?transfer s1 = (r2, s2)" by (cases "?transfer s1")
      from phaseD [OF phase_transfer tr] obtain cs2 ms2
        where c2: "calls s2 = calls s1 @ cs2" and p2: "printed s2 = printed s1 @ ms2"
          and C2: "list_all (\<lambda>c. \<not> is_rmd c \<and> \<not> is_delete c) cs2"
          and M2: "list_all (\<lambda>m. m \<noteq> Checking_for_remote_files_to_delete) ms2"
        by blast
      from C2 have f2: "filter is_delete cs2 = []"
        by (intro filter_none) (auto simp: list_all_iff)
      show ?thesis
      proof (cases r2)
        case (Inl e2)
        with tb sv tr \<open>r1 = Inr found\<close> have "s = s2" by (simp add: try_body_parts io_bind_def)
        with p1 p2 M1 M2 reached show ?thesis by (auto simp: list_all_iff)
      next
        case (Inr u)
        with tb sv tr \<open>r1 = Inr found\<close> have "finish rt srv ftp_path found s2 = (r, s)"
          by (simp add: try_body_parts io_bind_def)
        from finish_deletes [OF this] obtain cs3
          where "calls s = calls s2 @ cs3"
            and "filter is_delete cs3 = planned_deletes rt ftp_path found"
          by blast
        with c1 c2 f1 f2 have "filter is_delete (calls s) = planned_deletes rt ftp_path found"
          by simp
        with sv \<open>r1 = Inr found\<close> show ?thesis by blast
      qed
    qed
  qed
  from run show ?thesis
  proof (cases rule: main_cases)
    case (no_environment e)
    with reached show ?thesis by (simp add: init_def)
  next
    case (caught ftp_host ftp_username ftp_password ftp_path e s)
    from caught(7) reached have "Checking_for_remote_files_to_delete \<in> set (printed s)"
      by (simp add: say_def)
    from body [OF caught(5) this] caught show ?thesis by (auto simp: say_def)
  next
    case (completed ftp_host ftp_username ftp_password ftp_path s)
    from completed(7) reached have "Checking_for_remote_files_to_delete \<in> set (printed s)"
      by (simp add: say_def)
    from body [OF completed(5) this] completed show ?thesis by (auto simp: say_def)
  qed
qed

subsection \<open>The remote enumeration on a server whose listings do not change\<close>

lemma mlsd_static:
  assumes "\<forall>cs p facts. mlsd_reply srv (cs @ [Mlsd p facts]) = listing p facts"
  shows "mlsd srv p facts st = (listing p facts, st\<lparr>calls := calls st @ [Mlsd p facts]\<rparr>)"
  using assms by (simp add: mlsd_def Let_def)

lemma child_iff:
  "listing d [''type''] = Inr entries \<Longrightarrow>
     child listing d c \<longleftrightarrow> (\<exists>f\<in>set entries. snd f ''type'' = Some ''dir'' \<and> c = join_name d (fst f))"
  by (auto simp: child_def)

lemma reachable_unfold:
  assumes "listing d [''type''] = Inr entries"
  shows "{x. rtranclp (child listing) d x} =
           insert d {x. \<exists>f\<in>set entries. snd f ''type'' = Some ''dir'' \<and>
                          rtranclp (child listing) (join_name d (fst f)) x}"
proof (intro set_eqI iffI)
  fix x
  assume "x \<in> {x. rtranclp (child listing) d x}"
  then have "rtranclp (child listing) d x" by simp
  then show "x \<in> insert d {x. \<exists>f\<in>set entries. snd f ''type'' = Some ''dir'' \<and>
                          rtranclp (child listing) (join_name d (fst f)) x}"
  proof (cases rule: converse_rtranclpE)
    case base
    then show ?thesis by simp
  next
    case (step c)
    from step(1) assms obtain f where "f \<in> set entries" "snd f ''type'' = Some ''dir''"
      "c = join_name d (fst f)"
      by (auto simp: child_iff)
    with step(2) show ?thesis by auto
  qed
next
  fix x
  assume "x \<in> insert d {x. \<exists>f\<in>set entries. snd f ''type'' = Some ''dir'' \<and>
                          rtranclp (child listing) (join_name d (fst f)) x}"
  then consider "x = d"
    | f where "f \<in> set entries" "snd f ''type'' = Some ''dir''"
        "rtranclp (child listing) (join_name d (fst f)) x"
    by auto
  then have "rtranclp (child listing) d x"
  proof cases
    case 1
    then show ?thesis by simp
  next
    case 2
    from 2(1,2) assms have ch: "child listing d (join_name d (fst f))"
      by (auto simp: child_iff)
    from ch 2(3) show ?thesis by (rule converse_rtranclp_into_rtranclp)
  qed
  then show "x \<in> {x. rtranclp (child listing) d x}" by simp
qed

lemma get_dirs_reachable:
  "\<forall>cs p facts. mlsd_reply srv (cs @ [Mlsd p facts]) = listing p facts \<Longrightarrow>
     recursive_get_dirs n srv path acc st = (Inr ds, st') \<Longrightarrow>
           \<exists>new. ds = acc @ new \<and> set new = {d. rtranclp (child listing) path d}"
  "\<forall>cs p facts. mlsd_reply srv (cs @ [Mlsd p facts]) = listing p facts \<Longrightarrow>
     scan_entries n srv path entries acc st = (Inr ds, st') \<Longrightarrow>
           \<exists>new. ds = acc @ new \<and>
             set new = {d. \<exists>f\<in>set entries. snd f ''type'' = Some ''dir'' \<and>
                            rtranclp (child listing) (join_name path (fst f)) d}"
proof (induction n srv path acc and n srv path entries acc
       arbitrary: st ds st' and st ds st'
       rule: recursive_get_dirs_scan_entries.induct)
  case (1 srv path remote_dirs)
  then show ?case by (simp add: io_lift_def)
next
  case (2 n srv path remote_dirs)
  note static = "2.prems"(1)
  from "2.prems"(2) obtain entries s1
    where l: "mlsd srv path [''type''] st = (Inr entries, s1)"
      and sc: "scan_entries n srv path entries (remote_dirs @ [path]) s1 = (Inr ds, st')"
    by (auto elim!: io_bind_cases)
  from l have listed: "listing path [''type''] = Inr entries"
    by (simp add: mlsd_static [OF static])
  from "2.IH" [OF static sc] obtain new
    where ds: "ds = (remote_dirs @ [path]) @ new"
      and new: "set new = {d. \<exists>f\<in>set entries. snd f ''type'' = Some ''dir'' \<and>
                            rtranclp (child listing) (join_name path (fst f)) d}"
    by blast
  from new have "set (path # new) = {d. rtranclp (child listing) path d}"
    by (simp add: reachable_unfold [of listing path entries, OF listed])
  with ds show ?case by (intro exI [of _ "path # new"]) simp
next
  case (3 n srv path remote_dirs)
  then show ?case by (simp add: io_return_def)
next
  case (4 n srv path file_info rest remote_dirs)
  note static = "4.prems"(1)
  from "4.prems"(2) obtain t where t: "snd file_info ''type'' = Some t"
    by (auto simp: fact_def io_lift_def io_bind_def split: option.splits)
  show ?case
  proof (cases "t = ''dir''")
    case True
    with "4.prems"(2) t obtain acc1 s1
      where rec: "recursive_get_dirs n srv (join_name path (fst file_info)) remote_dirs st
                    = (Inr acc1, s1)"
        and sc: "scan_entries n srv path rest acc1 s1 = (Inr ds, st')"
      by (auto simp: fact_def io_lift_def io_bind_def split: prod.splits sum.splits)
    from "4.IH"(1) [OF True static rec] obtain new1
      where a1: "acc1 = remote_dirs @ new1"
        and n1: "set new1 = {d. rtranclp (child listing) (join_name path (fst file_info)) d}"
      by blast
    from "4.IH"(2) [OF True static sc] obtain new2
      where d2: "ds = acc1 @ new2"
        and n2: "set new2 = {d. \<exists>f\<in>set rest. snd f ''type'' = Some ''dir'' \<and>
                            rtranclp (child listing) (join_name path (fst f)) d}"
      by blast
    from n1 n2 t True
    have "set (new1 @ new2) = {d. \<exists>f\<in>set (file_info # rest). snd f ''type'' = Some ''dir'' \<and>
                            rtranclp (child listing) (join_name path (fst f)) d}"
      by auto
    with a1 d2 show ?thesis by (intro exI [of _ "new1 @ new2"]) simp
  next
    case False
    with "4.prems"(2) t have sc: "scan_entries n srv path rest remote_dirs st = (Inr ds, st')"
      by (auto simp: fact_def io_lift_def io_bind_def)
    from "4.IH"(3) [OF False static sc] obtain new
      where d: "ds = remote_dirs @ new"
        and n: "set new = {d. \<exists>f\<in>set rest. snd f ''type'' = Some ''dir'' \<and>
                            rtranclp (child listing) (join_name path (fst f)) d}"
      by blast
    from n t False
    have "set new = {d. \<exists>f\<in>set (file_info # rest). snd f ''type'' = Some ''dir'' \<and>
                            rtranclp (child listing) (join_name path (fst f)) d}"
      by auto
    with d show ?thesis by blast
  qed
qed

lemma file_entries_files_in:
  "file_entries d entries = Inr found \<Longrightarrow> found = files_in d entries \<and> has_file_facts entries"
proof (induction entries arbitrary: found)
  case Nil
  then show ?case by (simp add: files_in_def has_file_facts_def)
next
  case (Cons f entries)
  from Cons.prems obtain t where t: "snd f ''type'' = Some t"
    by (auto simp: fact_def split: option.splits)
  show ?case
  proof (cases "t = ''file''")
    case True
    with Cons.prems t obtain m s found'
      where "snd f ''modify'' = Some m" "snd f ''size'' = Some s"
        "file_entries d entries = Inr found'" "found = (join_name d (fst f), m, s) # found'"
      by (auto simp: fact_def split: option.splits sum.splits)
    with Cons.IH [of found'] t True show ?thesis
      by (simp add: files_in_def has_file_facts_def)
  next
    case False
    with Cons.prems t have "file_entries d entries = Inr found"
      by (simp add: fact_def)
    with Cons.IH [of found] t False show ?thesis
      by (simp add: files_in_def has_file_facts_def)
  qed
qed

lemma list_remote_files_static:
  assumes static: "\<forall>cs p facts. mlsd_reply srv (cs @ [Mlsd p facts]) = listing p facts"
  shows "list_remote_files srv dirs acc st = (Inr remote_files, st') \<Longrightarrow>
     remote_files =
       acc @ concat (map (\<lambda>d. case listing d [''size'', ''modify'', ''type''] of
                                 Inl e \<Rightarrow> []
                               | Inr entries \<Rightarrow> files_in d entries) dirs) \<and>
     (\<forall>d\<in>set dirs. \<exists>entries. listing d [''size'', ''modify'', ''type''] = Inr entries \<and>
                                has_file_facts entries)"
proof (induction dirs arbitrary: acc st)
  case Nil
  then show ?case by (simp add: io_return_def)
next
  case (Cons d dirs)
  from Cons.prems obtain entries s1 found
    where l: "mlsd srv d [''size'', ''modify'', ''type''] st = (Inr entries, s1)"
      and fe: "file_entries d entries = Inr found"
      and rest: "list_remote_files srv dirs (acc @ found) s1 = (Inr remote_files, st')"
    by (auto simp: io_bind_def io_lift_def split: prod.splits sum.splits)
  from l have listed: "listing d [''size'', ''modify'', ''type''] = Inr entries"
    by (simp add: mlsd_static [OF static])
  from file_entries_files_in [OF fe] have "found = files_in d entries" "has_file_facts entries"
    by simp_all
  with Cons.IH [OF rest] listed show ?case by simp
qed

lemma get_dirs_returns:
  "\<forall>cs p facts. mlsd_reply srv (cs @ [Mlsd p facts]) = listing p facts \<Longrightarrow>
     well_listed listing n path \<Longrightarrow>
     \<exists>ds st'. recursive_get_dirs n srv path acc st = (Inr ds, st')"
  "\<forall>cs p facts. mlsd_reply srv (cs @ [Mlsd p facts]) = listing p facts \<Longrightarrow>
     list_all (\<lambda>f. case snd f ''type'' of
                      None \<Rightarrow> False
                    | Some t \<Rightarrow> t = ''dir'' \<longrightarrow> well_listed listing n (join_name path (fst f)))
       entries \<Longrightarrow>
     \<exists>ds st'. scan_entries n srv path entries acc st = (Inr ds, st')"
proof (induction n srv path acc and n srv path entries acc
       arbitrary: st and st
       rule: recursive_get_dirs_scan_entries.induct)
  case (1 srv path remote_dirs)
  then show ?case by simp
next
  case (2 n srv path remote_dirs)
  note static = "2.prems"(1)
  from "2.prems"(2) obtain entries
    where listed: "listing path [''type''] = Inr entries"
      and sub: "list_all (\<lambda>f. case snd f ''type'' of
                      None \<Rightarrow> False
                    | Some t \<Rightarrow> t = ''dir'' \<longrightarrow> well_listed listing n (join_name path (fst f)))
                  entries"
    by (auto split: sum.splits)
  let ?s1 = "st\<lparr>calls := calls st @ [Mlsd path [''type'']]\<rparr>"
  from "2.IH" [OF static sub] obtain ds st'
    where "scan_entries n srv path entries (remote_dirs @ [path]) ?s1 = (Inr ds, st')"
    by blast
  with listed show ?case
    by (simp add: io_bind_def mlsd_static [OF static])
next
  case (3 n srv path remote_dirs)
  then show ?case by (simp add: io_return_def)
next
  case (4 n srv path file_info rest remote_dirs)
  note static = "4.prems"(1)
  from "4.prems"(2) obtain t where t: "snd file_info ''type'' = Some t"
    and deep: "t = ''dir'' \<longrightarrow> well_listed listing n (join_name path (fst file_info))"
    and sub: "list_all (\<lambda>f. case snd f ''type'' of
                      None \<Rightarrow> False
                    | Some t \<Rightarrow> t = ''dir'' \<longrightarrow> well_listed listing n (join_name path (fst f)))
                  rest"
    by (auto split: option.splits)
  show ?case
  proof (cases "t = ''dir''")
    case True
    with deep have "well_listed listing n (join_name path (fst file_info))" by simp
    from "4.IH"(1) [OF True static this] obtain acc1 s1
      where rec: "recursive_get_dirs n srv (join_name path (fst file_info)) remote_dirs st
                    = (Inr acc1, s1)"
      by blast
    from "4.IH"(2) [OF True static sub] obtain ds st'
      where "scan_entries n srv path rest acc1 s1 = (Inr ds, st')"
      by blast
    with rec t True show ?thesis
      by (simp add: io_bind_def io_lift_def fact_def)
  next
    case False
    from "4.IH"(3) [OF False static sub] obtain ds st'
      where "scan_entries n srv path rest remote_dirs st = (Inr ds, st')"
      by blast
    with t False show ?thesis
      by (simp add: io_bind_def io_lift_def fact_def)
  qed
qed

lemma file_entries_returns: "has_file_facts entries \<Longrightarrow> \<exists>found. file_entries d entries = Inr found"
proof (induction entries)
  case Nil
  then show ?case by simp
next
  case (Cons f entries)
  then obtain found where "file_entries d entries = Inr found"
    by (auto simp: has_file_facts_def)
  with Cons.prems show ?case
    by (auto simp: has_file_facts_def fact_def)
qed

lemma list_remote_files_returns:
  assumes static: "\<forall>cs p facts. mlsd_reply srv (cs @ [Mlsd p facts]) = listing p facts"
  shows "\<forall>d\<in>set dirs. \<exists>entries. listing d [''size'', ''modify'', ''type''] = Inr entries \<and>
                                has_file_facts entries \<Longrightarrow>
     \<exists>remote_files st'. list_remote_files srv dirs acc st = (Inr remote_files, st')"
proof (induction dirs arbitrary: acc st)
  case Nil
  then show ?case by (simp add: io_return_def)
next
  case (Cons d dirs)
  from Cons.prems obtain entries
    where listed: "listing d [''size'', ''modify'', ''type''] = Inr entries"
      and facts: "has_file_facts entries"
    by auto
  from file_entries_returns [OF facts] obtain found where fe: "file_entries d entries = Inr found"
    by blast
  let ?s1 = "st\<lparr>calls := calls st @ [Mlsd d [''size'', ''modify'', ''type'']]\<rparr>"
  from Cons.prems have "\<forall>d\<in>set dirs. \<exists>entries.
      listing d [''size'', ''modify'', ''type''] = Inr entries \<and> has_file_facts entries"
    by simp
  from Cons.IH [OF this] obtain remote_files st'
    where "list_remote_files srv dirs (acc @ found) ?s1 = (Inr remote_files, st')"
    by blast
  with listed fe show ?case
    by (simp add: io_bind_def io_lift_def mlsd_static [OF static])
qed

lemma get_remote_files_returns:
  assumes static: "\<forall>cs p facts. mlsd_reply srv (cs @ [Mlsd p facts]) = listing p facts"
    and depth: "well_listed listing (n - 1) (path_of path)"
    and files: "\<forall>d. rtranclp (child listing) (path_of path) d \<longrightarrow>
                  (\<exists>entries. listing d [''size'', ''modify'', ''type''] = Inr entries \<and>
                             has_file_facts entries)"
  shows "\<exists>remote_files st'. get_remote_files n srv path st = (Inr remote_files, st')"
proof -
  from get_dirs_returns(1) [OF static depth] obtain dirs s1
    where d: "recursive_get_dirs (n - 1) srv (path_of path) [] st = (Inr dirs, s1)"
    by blast
  from get_dirs_reachable(1) [OF static d]
  have "set dirs = {d. rtranclp (child listing) (path_of path) d}" by simp
  with files have "\<forall>d\<in>set dirs. \<exists>entries.
      listing d [''size'', ''modify'', ''type''] = Inr entries \<and> has_file_facts entries"
    by blast
  from list_remote_files_returns [OF static this] obtain remote_files st'
    where "list_remote_files srv dirs [] s1 = (Inr remote_files, st')"
    by blast
  with d show ?thesis
    by (simp add: get_remote_files_def get_remote_dirs_def io_bind_def)
qed

section \<open>The claims\<close>

text \<open>
  Claim C1. When the force flag is not set, a local file is in the change set if and
  only if no remote file has its relative path, or the matching remote file (the first
  one in the remote listing) reports a size that, read as an integer, is strictly less
  than the local size. In particular a local file whose remote counterpart reports a
  size greater than or equal to the local size is not in the change set. The change set
  exists when the loop has run to its end: then every local file lies under the local
  root and every size the loop read is an integer.
\<close>

theorem change_set_without_force:
  assumes locals: "get_local_files fs (walk fs) [] = Inr local_files"
    and look: "look_for_changes rt False remote_files local_files st = (Inr changed_files, st')"
    and item: "(local_file, info) \<in> set local_files"
  shows "\<exists>remote_file.
           relative_to local_file (path_of local_site_path) = Inr remote_file \<and>
           (local_file \<in> set changed_files \<longleftrightarrow>
              (\<forall>f\<in>set remote_files. relative_to (fst f) dot \<noteq> Inr remote_file) \<or>
              (\<exists>f n. find (\<lambda>f. relative_to (fst f) dot = Inr remote_file) remote_files = Some f \<and>
                     int_of_str rt (snd (snd f)) = Some n \<and> n < info_size info)) \<and>
           (\<forall>f n. find (\<lambda>f. relative_to (fst f) dot = Inr remote_file) remote_files = Some f \<and>
                  int_of_str rt (snd (snd f)) = Some n \<and> info_size info \<le> n
                  \<longrightarrow> local_file \<notin> set changed_files)"
proof -
  from look have fc: "find_changes rt remote_files local_files [] = Inr changed_files"
    by (rule look_for_changes_no_force)
  from locals have dist: "distinct (map fst local_files)"
    by (rule get_local_files_distinct) simp
  from fc item obtain remote_file
    where rel: "relative_to local_file (path_of local_site_path) = Inr remote_file"
    by (blast dest: find_changes_relative)
  from fc have "changed_files = map fst (filter (needs_upload rt remote_files) local_files)"
    by (auto dest: find_changes_filter)
  with dist item
  have mem: "local_file \<in> set changed_files \<longleftrightarrow> needs_upload rt remote_files (local_file, info)"
    by (simp only: distinct_keys_filter)
  let ?found = "find (\<lambda>f. relative_to (fst f) dot = Inr remote_file) remote_files"
  have iff: "needs_upload rt remote_files (local_file, info) \<longleftrightarrow>
      (\<forall>f\<in>set remote_files. relative_to (fst f) dot \<noteq> Inr remote_file) \<or>
      (\<exists>f n. ?found = Some f \<and> int_of_str rt (snd (snd f)) = Some n \<and> n < info_size info)"
  proof (cases ?found)
    case None
    then have "\<forall>f\<in>set remote_files. relative_to (fst f) dot \<noteq> Inr remote_file"
      unfolding find_None_iff by blast
    with None show ?thesis
      by (simp add: needs_upload_def rel)
  next
    case (Some f)
    then have "\<not> (\<forall>f\<in>set remote_files. relative_to (fst f) dot \<noteq> Inr remote_file)"
      by (auto simp: find_Some_iff)
    with Some show ?thesis
      by (auto simp: needs_upload_def rel split: option.splits)
  qed
  have "\<forall>f n. ?found = Some f \<and> int_of_str rt (snd (snd f)) = Some n \<and> info_size info \<le> n
          \<longrightarrow> \<not> needs_upload rt remote_files (local_file, info)"
    by (auto simp: needs_upload_def rel)
  with rel mem iff show ?thesis by blast
qed

theorem change_set_without_force_witness:
  "get_local_files example_fs (walk example_fs) [] = Inr example_local_files \<and>
   look_for_changes example_rt False example_remote_files example_local_files init =
     (Inr [Path Relative [''output'', ''a.txt''], Path Relative [''output'', ''sub'', ''c.txt'']],
      say Looking_for_changes init) \<and>
   (Path Relative [''output'', ''a.txt''], \<lparr>info_modify = 0, info_size = 20\<rparr>)
     \<in> set example_local_files \<and>
   (\<exists>remote_file.
      relative_to (Path Relative [''output'', ''a.txt'']) (path_of local_site_path) = Inr remote_file \<and>
      (Path Relative [''output'', ''a.txt'']
         \<in> set [Path Relative [''output'', ''a.txt''], Path Relative [''output'', ''sub'', ''c.txt'']] \<longleftrightarrow>
         (\<forall>f\<in>set example_remote_files. relative_to (fst f) dot \<noteq> Inr remote_file) \<or>
         (\<exists>f n. find (\<lambda>f. relative_to (fst f) dot = Inr remote_file) example_remote_files = Some f \<and>
                int_of_str example_rt (snd (snd f)) = Some n \<and> n < 20)))"
proof -
  have h3: "(Path Relative [''output'', ''a.txt''], \<lparr>info_modify = 0, info_size = 20\<rparr>)
      \<in> set example_local_files"
    by (simp add: example_local_files_def)
  from change_set_without_force [OF ex_local ex_look h3] ex_local ex_look h3
  show ?thesis by simp blast
qed

text \<open>
  Claim C2, as amended. When the force flag is set, the change-detection loop still runs
  and still reads the size of every matching remote file as an integer. If the loop runs
  to its end, its result is discarded and the change set is the whole list of local
  files, whatever the remote files are. If the loop raises, so does the phase: there is
  no change set. The counterexample is a remote file whose size is not an integer.
\<close>

theorem change_set_with_force:
  "look_for_changes rt True remote_files local_files st =
     (case find_changes rt remote_files local_files [] of
        Inl e \<Rightarrow> (Inl e, say Looking_for_changes st)
      | Inr detected \<Rightarrow>
          (Inr (map fst local_files), say Force_option_given (say Looking_for_changes st)))"
  by (simp add: look_for_changes_def io_bind_def io_lift_def io_return_def print_def
        split: sum.splits)

theorem change_set_with_force_witness:
  "find_changes example_rt example_remote_files example_local_files [] =
     Inr [Path Relative [''output'', ''a.txt''], Path Relative [''output'', ''sub'', ''c.txt'']] \<and>
   look_for_changes example_rt True example_remote_files example_local_files init =
     (Inr (map fst example_local_files), say Force_option_given (say Looking_for_changes init))"
proof -
  have h: "find_changes example_rt example_remote_files example_local_files [] =
     Inr [Path Relative [''output'', ''a.txt''], Path Relative [''output'', ''sub'', ''c.txt'']]"
    by (simp add: example_rt_def example_remote_files_def example_local_files_def path_simps
          decimal_def)
  from change_set_with_force [of example_rt example_remote_files example_local_files init] h
  show ?thesis by simp
qed

theorem change_set_with_force_counterexample:
  "int_of_str example_rt ''abc'' = None \<and>
   look_for_changes example_rt True
       [(Path Relative [''a.txt''], ''20240101120000'', ''abc'')] example_local_files init =
     (Inl ValueError, say Looking_for_changes init) \<and>
   fst (look_for_changes example_rt True
       [(Path Relative [''a.txt''], ''20240101120000'', ''abc'')] example_local_files init)
     \<noteq> Inr (map fst example_local_files) \<and>
   main example_rt True example_environ (static_server odd_size_listing []) example_fs =
     (Exit_normally, odd_size_trace) \<and>
   filter is_storbinary (calls odd_size_trace) = []"
proof -
  have "int_of_str example_rt ''abc'' = None \<and>
   look_for_changes example_rt True
       [(Path Relative [''a.txt''], ''20240101120000'', ''abc'')] example_local_files init =
     (Inl ValueError, say Looking_for_changes init) \<and>
   fst (look_for_changes example_rt True
       [(Path Relative [''a.txt''], ''20240101120000'', ''abc'')] example_local_files init)
     \<noteq> Inr (map fst example_local_files)"
    by (simp add: look_for_changes_def io_bind_def io_lift_def io_return_def print_def
          example_rt_def example_local_files_def path_simps decimal_def)
  moreover have "main example_rt True example_environ (static_server odd_size_listing [])
      example_fs = (Exit_normally, odd_size_trace)"
    by (simp add: script_simps io_simps example_simps path_simps odd_size_trace_def
          eval_nat_numeral)
  moreover have "filter is_storbinary (calls odd_size_trace) = []"
    by (simp add: odd_size_trace_def)
  ultimately show ?thesis by simp
qed

text \<open>
  Claim C3. The deletion engine calls \<^verbatim>\<open>delete\<close> for exactly the remote files whose
  path relative to the remote root is not among the local file paths relative to the
  local root: once each, for every such path and for no other, whatever the server
  answers. The two hypotheses name the relative paths (the two set comprehensions of the
  function); the order of the calls is the iteration order of a set.
\<close>

theorem deletion_engine_deletes_exactly:
  assumes order: "\<forall>xs. distinct xs \<longrightarrow> distinct (set_iter rt xs) \<and> set (set_iter rt xs) = set xs"
    and locals: "map_raise (\<lambda>f. relative_to f (path_of site)) (map fst local_files) = Inr local_file_paths"
    and remotes: "map_raise (\<lambda>f. relative_to (fst f) (path_of ''.'')) remote_files = Inr remote_file_paths"
    and run: "delete_remote_files_not_in_local rt srv remote_files local_files site ftp_path st = (r, st')"
  shows "\<exists>to_delete.
      calls st' = calls st @ map (\<lambda>p. Delete (joinpath (path_of ftp_path) p)) to_delete \<and>
      distinct to_delete \<and>
      set to_delete = set remote_file_paths - set local_file_paths \<and>
      (\<forall>p\<in>set local_file_paths.
         Delete (joinpath (path_of ftp_path) p)
           \<notin> set (map (\<lambda>p. Delete (joinpath (path_of ftp_path) p)) to_delete))"
proof -
  from files_to_delete_set [OF order locals remotes] obtain to_delete
    where td: "files_to_delete rt remote_files local_files site = Inr to_delete"
      and dist: "distinct to_delete"
      and set: "set to_delete = set remote_file_paths - set local_file_paths"
    by blast
  from engine_run [OF td run]
  have c: "calls st' = calls st @ map (\<lambda>p. Delete (joinpath (path_of ftp_path) p)) to_delete"
    by blast
  have "Delete (joinpath (path_of ftp_path) p)
          \<notin> set (map (\<lambda>p. Delete (joinpath (path_of ftp_path) p)) to_delete)"
    if p: "p \<in> set local_file_paths" for p
  proof
    assume "Delete (joinpath (path_of ftp_path) p)
          \<in> set (map (\<lambda>p. Delete (joinpath (path_of ftp_path) p)) to_delete)"
    then obtain q where q: "q \<in> set to_delete"
      and eq: "joinpath (path_of ftp_path) p = joinpath (path_of ftp_path) q"
      by auto
    from p locals have "anchor p = Relative"
      by (auto simp: map_raise_set dest: relative_to_Relative)
    moreover from q set remotes have "anchor q = Relative"
      by (auto simp: map_raise_set dest: relative_to_Relative)
    ultimately have "p = q" using eq by (rule joinpath_Relative_inject)
    with p q set show False by simp
  qed
  with c dist set show ?thesis by blast
qed


theorem deletion_engine_deletes_exactly_witness:
  "map_raise (\<lambda>f. relative_to f (path_of local_site_path)) (map fst example_local_files) =
     Inr [Path Relative [''a.txt''], Path Relative [''sub'', ''c.txt'']] \<and>
   map_raise (\<lambda>f. relative_to (fst f) (path_of ''.'')) example_remote_files =
     Inr [Path Relative [''b.txt''], Path Relative [''a.txt''], Path Relative [''old'', ''x.txt'']] \<and>
   delete_remote_files_not_in_local example_rt (example_server []) example_remote_files
       example_local_files local_site_path ''/www'' init =
     (Inr (),
      \<lparr>calls = [Delete (Path Root [''www'', ''b.txt'']), Delete (Path Root [''www'', ''old'', ''x.txt''])],
       printed = [Deleting_remote_files 2, Deleted (Path Root [''www'', ''b.txt'']),
                  Deleted (Path Root [''www'', ''old'', ''x.txt''])]\<rparr>) \<and>
   (\<exists>to_delete.
      [Delete (Path Root [''www'', ''b.txt'']), Delete (Path Root [''www'', ''old'', ''x.txt''])] =
        map (\<lambda>p. Delete (joinpath (path_of ''/www'') p)) to_delete \<and>
      distinct to_delete \<and>
      set to_delete =
        set [Path Relative [''b.txt''], Path Relative [''a.txt''], Path Relative [''old'', ''x.txt'']]
          - set [Path Relative [''a.txt''], Path Relative [''sub'', ''c.txt'']])"
proof -
  have order: "\<forall>xs. distinct xs \<longrightarrow>
      distinct (set_iter example_rt xs) \<and> set (set_iter example_rt xs) = set xs"
    by (simp add: example_rt_def)
  have h1: "map_raise (\<lambda>f. relative_to f (path_of local_site_path)) (map fst example_local_files) =
     Inr [Path Relative [''a.txt''], Path Relative [''sub'', ''c.txt'']]"
    by (simp add: example_local_files_def path_simps)
  have h2: "map_raise (\<lambda>f. relative_to (fst f) (path_of ''.'')) example_remote_files =
     Inr [Path Relative [''b.txt''], Path Relative [''a.txt''], Path Relative [''old'', ''x.txt'']]"
    by (simp add: example_remote_files_def path_simps)
  have h3: "delete_remote_files_not_in_local example_rt (example_server []) example_remote_files
       example_local_files local_site_path ''/www'' init =
     (Inr (),
      \<lparr>calls = [Delete (Path Root [''www'', ''b.txt'']), Delete (Path Root [''www'', ''old'', ''x.txt''])],
       printed = [Deleting_remote_files 2, Deleted (Path Root [''www'', ''b.txt'']),
                  Deleted (Path Root [''www'', ''old'', ''x.txt''])]\<rparr>)"
    by (simp add: delete_remote_files_not_in_local_def files_to_delete_def delete_one_def
          io_bind_def io_lift_def io_return_def io_try_def print_def say_def ftp_cmd_def init_def
          example_rt_def example_server_def static_server_def example_remote_files_def example_local_files_def
          path_simps)
  from deletion_engine_deletes_exactly [OF order h1 h2 h3]
  obtain to_delete where
    a: "calls \<lparr>calls = [Delete (Path Root [''www'', ''b.txt'']),
                     Delete (Path Root [''www'', ''old'', ''x.txt''])],
            printed = [Deleting_remote_files 2, Deleted (Path Root [''www'', ''b.txt'']),
                       Deleted (Path Root [''www'', ''old'', ''x.txt''])]\<rparr> =
       calls init @ map (\<lambda>p. Delete (joinpath (path_of ''/www'') p)) to_delete"
    and b: "distinct to_delete"
    and c: "set to_delete =
        set [Path Relative [''b.txt''], Path Relative [''a.txt''], Path Relative [''old'', ''x.txt'']]
          - set [Path Relative [''a.txt''], Path Relative [''sub'', ''c.txt'']]"
    by (elim exE conjE)
  from a have a': "[Delete (Path Root [''www'', ''b.txt'']), Delete (Path Root [''www'', ''old'', ''x.txt''])] =
        map (\<lambda>p. Delete (joinpath (path_of ''/www'') p)) to_delete"
    by (simp add: init_def)
  from h1 h2 h3 a' b c show ?thesis
    by (intro conjI exI [of _ to_delete])
qed

text \<open>
  Claim C4. A \<^verbatim>\<open>delete\<close> that raises, with \<^verbatim>\<open>error_perm\<close> or with any other exception,
  is caught and logged, and the loop goes on: whatever the server answers, the engine
  returns normally, it has called \<^verbatim>\<open>delete\<close> for every file to delete, and each failed
  call has its line in the output.
\<close>

theorem failed_delete_is_logged_and_skipped:
  assumes td: "files_to_delete rt remote_files local_files site = Inr to_delete"
  shows "\<exists>st'.
      delete_remote_files_not_in_local rt srv remote_files local_files site ftp_path st = (Inr (), st') \<and>
      calls st' = calls st @ map (\<lambda>p. Delete (joinpath (path_of ftp_path) p)) to_delete \<and>
      (\<forall>i<length to_delete. \<forall>e.
         cmd_reply srv
           (calls st @ map (\<lambda>p. Delete (joinpath (path_of ftp_path) p)) (take (Suc i) to_delete)) = Some e
         \<longrightarrow> (case e of
                Error_perm m \<Rightarrow> Failed_to_delete (joinpath (path_of ftp_path) (to_delete ! i)) e
              | _ \<Rightarrow> Unexpected_error_deleting (joinpath (path_of ftp_path) (to_delete ! i)) e)
             \<in> set (drop (length (printed st)) (printed st')))"
proof -
  obtain r st'
    where run: "delete_remote_files_not_in_local rt srv remote_files local_files site ftp_path st = (r, st')"
    by (cases "delete_remote_files_not_in_local rt srv remote_files local_files site ftp_path st")
  from engine_run [OF td run] obtain ms
    where r: "r = Inr ()"
      and c: "calls st' = calls st @ map (\<lambda>p. Delete (joinpath (path_of ftp_path) p)) to_delete"
      and p: "printed st' = printed st @ ms"
      and rep: "\<forall>i<length to_delete.
           delete_report srv
             (calls st @ map (\<lambda>p. Delete (joinpath (path_of ftp_path) p)) (take (Suc i) to_delete))
             (joinpath (path_of ftp_path) (to_delete ! i)) \<in> set ms"
    by blast
  from p have ms: "drop (length (printed st)) (printed st') = ms" by simp
  have "(case e of
           Error_perm m \<Rightarrow> Failed_to_delete (joinpath (path_of ftp_path) (to_delete ! i)) e
         | _ \<Rightarrow> Unexpected_error_deleting (joinpath (path_of ftp_path) (to_delete ! i)) e)
        \<in> set (drop (length (printed st)) (printed st'))"
    if i: "i < length to_delete"
      and e: "cmd_reply srv
           (calls st @ map (\<lambda>p. Delete (joinpath (path_of ftp_path) p)) (take (Suc i) to_delete)) = Some e"
    for i e
  proof -
    from rep i
    have "delete_report srv
             (calls st @ map (\<lambda>p. Delete (joinpath (path_of ftp_path) p)) (take (Suc i) to_delete))
             (joinpath (path_of ftp_path) (to_delete ! i)) \<in> set ms"
      by blast
    with e show ?thesis
      unfolding ms by (simp add: delete_report_def)
  qed
  with run r c show ?thesis by blast
qed


theorem failed_delete_is_logged_and_skipped_witness:
  "files_to_delete example_rt example_remote_files example_local_files local_site_path =
     Inr [Path Relative [''b.txt''], Path Relative [''old'', ''x.txt'']] \<and>
   cmd_reply (example_server [Delete (Path Root [''www'', ''b.txt''])])
     [Delete (Path Root [''www'', ''b.txt''])] = Some (Error_perm ''550'') \<and>
   delete_remote_files_not_in_local example_rt
       (example_server [Delete (Path Root [''www'', ''b.txt''])]) example_remote_files
       example_local_files local_site_path ''/www'' init =
     (Inr (),
      \<lparr>calls = [Delete (Path Root [''www'', ''b.txt'']), Delete (Path Root [''www'', ''old'', ''x.txt''])],
       printed = [Deleting_remote_files 2,
                  Failed_to_delete (Path Root [''www'', ''b.txt'']) (Error_perm ''550''),
                  Deleted (Path Root [''www'', ''old'', ''x.txt''])]\<rparr>)"
proof -
  have h1: "files_to_delete example_rt example_remote_files example_local_files local_site_path =
     Inr [Path Relative [''b.txt''], Path Relative [''old'', ''x.txt'']]"
    by (simp add: files_to_delete_def example_rt_def example_remote_files_def
          example_local_files_def path_simps)
  have h2: "cmd_reply (example_server [Delete (Path Root [''www'', ''b.txt''])])
     [Delete (Path Root [''www'', ''b.txt''])] = Some (Error_perm ''550'')"
    by (simp add: example_server_def static_server_def)
  from failed_delete_is_logged_and_skipped [OF h1,
      of "example_server [Delete (Path Root [''www'', ''b.txt''])]" "''/www''" init]
  obtain st' where
    run: "delete_remote_files_not_in_local example_rt
       (example_server [Delete (Path Root [''www'', ''b.txt''])]) example_remote_files
       example_local_files local_site_path ''/www'' init = (Inr (), st')"
    by blast
  have "delete_remote_files_not_in_local example_rt
       (example_server [Delete (Path Root [''www'', ''b.txt''])]) example_remote_files
       example_local_files local_site_path ''/www'' init =
     (Inr (),
      \<lparr>calls = [Delete (Path Root [''www'', ''b.txt'']), Delete (Path Root [''www'', ''old'', ''x.txt''])],
       printed = [Deleting_remote_files 2,
                  Failed_to_delete (Path Root [''www'', ''b.txt'']) (Error_perm ''550''),
                  Deleted (Path Root [''www'', ''old'', ''x.txt''])]\<rparr>)"
    by (simp add: delete_remote_files_not_in_local_def files_to_delete_def delete_one_def
          io_bind_def io_lift_def io_return_def io_try_def print_def say_def ftp_cmd_def init_def
          example_rt_def example_server_def static_server_def example_remote_files_def example_local_files_def
          path_simps)
  with h1 h2 run show ?thesis by simp
qed

text \<open>
  Claim C5. Let \<open>local_dirs\<close> be the relative paths of the local directories, each listed once
  by the walk (\<open>distinct\<close>), and \<open>remote_dirs\<close> the relative paths of the directories that
  the phase finds on the server. Whatever the result of the phase, it calls \<^verbatim>\<open>mkd\<close> at most once
  for a local directory that is not among the remote ones, and never for any other path; in
  particular never for a local directory that is present remotely. When the phase runs to its
  end, it has called \<^verbatim>\<open>mkd\<close> exactly once for every local directory that is not among the
  remote ones.
\<close>

theorem missing_directories_are_created_once:
  assumes run: "mirror_directories rt srv fs ftp_path st = (r, st')"
    and walked: "walk_dirs (walk fs) [] = Inr local_dirs"
    and once: "distinct local_dirs"
    and listed: "get_remote_dirs (frames rt) srv ftp_path (say Mirroring_directories st) = (Inr dirs, s)"
    and relative: "map_raise (\<lambda>d. relative_to d (path_of ftp_path)) dirs = Inr remote_dirs"
  shows "(\<forall>d. count_list (drop (length (calls st)) (calls st')) (Mkd d) \<le>
                (if d \<in> set local_dirs \<and> d \<notin> set remote_dirs then 1 else 0)) \<and>
         (r = Inr () \<longrightarrow>
            (\<forall>d. count_list (drop (length (calls st)) (calls st')) (Mkd d) =
                   (if d \<in> set local_dirs \<and> d \<notin> set remote_dirs then 1 else 0)))"
proof -
  from run walked listed relative
  have made: "make_dirs srv remote_dirs local_dirs s = (r, st')"
    by (simp add: mirror_directories_def io_bind_def io_lift_def print_def)
  from phaseD [OF phase_get_remote_dirs listed] obtain cs
    where cs: "calls s = calls st @ cs" and mlsd: "list_all is_mlsd cs"
    by (auto simp: say_def)
  let ?missing = "filter (\<lambda>d. d \<notin> set remote_dirs) local_dirs"
  from make_dirs_prefix [OF made] cs obtain k
    where new: "drop (length (calls st)) (calls st') = cs @ map Mkd (take k ?missing)"
      and all: "r = Inr () \<longrightarrow> drop (length (calls st)) (calls st') = cs @ map Mkd ?missing"
    by auto
  have none: "count_list cs (Mkd d) = 0" for d
  proof -
    from mlsd have "Mkd d \<notin> set cs" by (auto simp: list_all_iff)
    then show ?thesis by (rule count_notin)
  qed
  from once have "distinct ?missing" by simp
  then have exact: "count_list ?missing d =
      (if d \<in> set local_dirs \<and> d \<notin> set remote_dirs then 1 else 0)" for d
    by (simp add: count_list_distinct)
  have "count_list (drop (length (calls st)) (calls st')) (Mkd d) \<le>
          (if d \<in> set local_dirs \<and> d \<notin> set remote_dirs then 1 else 0)" for d
  proof -
    have "count_list (drop (length (calls st)) (calls st')) (Mkd d) = count_list (take k ?missing) d"
      by (simp add: new none count_list_Mkd)
    also have "\<dots> \<le> count_list ?missing d" by (rule count_list_take_le)
    finally show ?thesis by (simp only: exact)
  qed
  moreover have "count_list (drop (length (calls st)) (calls st')) (Mkd d) =
          (if d \<in> set local_dirs \<and> d \<notin> set remote_dirs then 1 else 0)" if "r = Inr ()" for d
  proof -
    from that all have "drop (length (calls st)) (calls st') = cs @ map Mkd ?missing" by simp
    then have "count_list (drop (length (calls st)) (calls st')) (Mkd d) = count_list ?missing d"
      by (simp add: none count_list_Mkd)
    then show ?thesis by (simp only: exact)
  qed
  ultimately show ?thesis by blast
qed

theorem missing_directories_are_created_once_witness:
  "mirror_directories example_rt (example_server []) example_fs ''/www'' init =
     (Inr (), mirrored_trace) \<and>
   walk_dirs (walk example_fs) [] = Inr [Path Relative [''sub'']] \<and>
   distinct [Path Relative [''sub'']] \<and>
   get_remote_dirs (frames example_rt) (example_server []) ''/www''
      (say Mirroring_directories init) =
      (Inr [Path Root [''www''], Path Root [''www'', ''old'']],
       \<lparr>calls = [Mlsd (Path Root [''www'']) [''type''],
                 Mlsd (Path Root [''www'', ''old'']) [''type'']],
        printed = [Mirroring_directories]\<rparr>) \<and>
   map_raise (\<lambda>d. relative_to d (path_of ''/www''))
      [Path Root [''www''], Path Root [''www'', ''old'']] =
      Inr [Path Relative [], Path Relative [''old'']] \<and>
   count_list (drop (length (calls init)) (calls mirrored_trace)) (Mkd (Path Relative [''sub''])) = 1 \<and>
   count_list (drop (length (calls init)) (calls mirrored_trace)) (Mkd (Path Relative [''old''])) = 0"
proof -
  have walked: "walk_dirs (walk example_fs) [] = Inr [Path Relative [''sub'']]"
    by (simp add: example_fs_def path_simps)
  have once: "distinct [Path Relative [''sub'']]" by simp
  have listed: "get_remote_dirs (frames example_rt) (example_server []) ''/www''
      (say Mirroring_directories init) =
      (Inr [Path Root [''www''], Path Root [''www'', ''old'']],
       \<lparr>calls = [Mlsd (Path Root [''www'']) [''type''],
                 Mlsd (Path Root [''www'', ''old'']) [''type'']],
        printed = [Mirroring_directories]\<rparr>)"
    by (simp add: script_simps io_simps example_simps path_simps eval_nat_numeral)
  have relative: "map_raise (\<lambda>d. relative_to d (path_of ''/www''))
      [Path Root [''www''], Path Root [''www'', ''old'']] =
      Inr [Path Relative [], Path Relative [''old'']]"
    by (simp add: path_simps)
  from missing_directories_are_created_once [OF mirrored_run walked once listed relative]
  have c: "\<forall>d. count_list (drop (length (calls init)) (calls mirrored_trace)) (Mkd d) =
              (if d \<in> set [Path Relative [''sub'']] \<and>
                  d \<notin> set [Path Relative [], Path Relative [''old'']] then 1 else 0)"
    by blast
  from c have
    "count_list (drop (length (calls init)) (calls mirrored_trace)) (Mkd (Path Relative [''sub''])) = 1"
    "count_list (drop (length (calls init)) (calls mirrored_trace)) (Mkd (Path Relative [''old''])) = 0"
    by simp_all
  with mirrored_run walked once listed relative show ?thesis by (intro conjI)
qed

text \<open>
  Claim C6. If the store call for a file of the change set raises, that call is the last
  call of the run: no further file is uploaded, no \<^verbatim>\<open>delete\<close> is ever called and the
  deletion phase is not announced. The exception reaches the handler of the \<^verbatim>\<open>try\<close>
  statement, which prints it, and the banner follows. The hypotheses say that the
  \<open>i\<close>-th call of the run is a store call for which the server raised \<open>e\<close>.
\<close>

theorem failed_upload_ends_the_run:
  assumes run: "main rt force environ srv fs = (out, st)"
    and i: "i < length (calls st)"
    and stor: "calls st ! i = Storbinary p content"
    and fail: "cmd_reply srv (take (Suc i) (calls st)) = Some e"
  shows "Suc i = length (calls st) \<and>
         (\<forall>c\<in>set (calls st). \<not> is_delete c) \<and>
         Checking_for_remote_files_to_delete \<notin> set (printed st) \<and>
         (\<exists>ms. printed st = ms @ [Error_uploading e, Finished_banner]) \<and>
         out = Exit_normally"
proof -
  have main_goal: "Suc i = length (calls s) \<and> (\<forall>c\<in>set (calls s). \<not> is_delete c) \<and>
      Checking_for_remote_files_to_delete \<notin> set (printed s) \<and> r = Inl e"
    if body: "try_body rt force srv fs ftp_host ftp_username ftp_password ftp_path init = (r, s)"
      and i: "i < length (calls s)"
      and stor: "calls s ! i = Storbinary p content"
      and fail: "cmd_reply srv (take (Suc i) (calls s)) = Some e"
    for ftp_host ftp_username ftp_password ftp_path r s
  proof -
    let ?survey = "survey rt srv fs ftp_host ftp_username ftp_password ftp_path"
    obtain r1 s1 where sv: "?survey init = (r1, s1)" by (cases "?survey init")
    from phaseD [OF phase_survey sv] obtain cs1 ms1
      where c1: "calls s1 = cs1" and p1: "printed s1 = ms1"
        and C1: "list_all (\<lambda>c. \<not> is_mkd c \<and> \<not> is_rmd c \<and> \<not> is_storbinary c \<and> \<not> is_delete c) cs1"
        and M1: "list_all (\<lambda>m. m \<noteq> Checking_for_remote_files_to_delete) ms1"
      by (auto simp: init_def)
    from C1 have nostor1: "list_all (\<lambda>c. \<not> is_storbinary c) cs1"
      and nodel1: "\<forall>c\<in>set cs1. \<not> is_delete c"
      by (auto simp: list_all_iff)
    show ?thesis
    proof (cases r1)
      case (Inl e1)
      with body sv have "s = s1" by (simp add: try_body_parts io_bind_def)
      with c1 nostor1 i stor show ?thesis by (auto simp: list_all_length)
    next
      case (Inr found)
      let ?transfer = "transfer rt force srv fs ftp_path found"
      obtain r2 s2 where tr: "?transfer s1 = (r2, s2)" by (cases "?transfer s1")
      from phaseD [OF phase_transfer tr] obtain cs2 ms2
        where c2: "calls s2 = calls s1 @ cs2" and p2: "printed s2 = printed s1 @ ms2"
          and C2: "list_all (\<lambda>c. \<not> is_rmd c \<and> \<not> is_delete c) cs2"
          and M2: "list_all (\<lambda>m. m \<noteq> Checking_for_remote_files_to_delete) ms2"
          and a2: "\<forall>i e. i < length cs2 \<longrightarrow> \<not> is_delete (cs2 ! i) \<longrightarrow>
                 failure srv (calls s1 @ take (Suc i) cs2) = Some e \<longrightarrow>
                 Suc i = length cs2 \<and> r2 = Inl e"
        by blast
      have in_transfer: "Suc i = length (cs1 @ cs2) \<and> r2 = Inl e"
        if i': "i < length (cs1 @ cs2)" and stor': "(cs1 @ cs2) ! i = Storbinary p content"
          and fail': "cmd_reply srv (take (Suc i) (cs1 @ cs2)) = Some e"
      proof -
        from stor' have "\<not> (\<not> is_storbinary ((cs1 @ cs2) ! i))" by simp
        with nostor1 i' have le: "length cs1 \<le> i" by (rule list_all_nth_append)
        define j where "j = i - length cs1"
        from le i' have j: "j < length cs2" by (simp add: j_def)
        from le stor' have sj: "cs2 ! j = Storbinary p content"
          by (simp add: nth_append j_def)
        from le have tk: "take (Suc i) (cs1 @ cs2) = cs1 @ take (Suc j) cs2"
          by (simp add: j_def Suc_diff_le)
        from j sj have "\<not> is_mlsd (last (cs1 @ take (Suc j) cs2))"
          by (simp only: last_take_Suc) simp
        then have "failure srv (cs1 @ take (Suc j) cs2) = cmd_reply srv (cs1 @ take (Suc j) cs2)"
          by (rule failure_cmd_reply)
        with fail' tk c1 have "failure srv (calls s1 @ take (Suc j) cs2) = Some e" by simp
        moreover from sj have "\<not> is_delete (cs2 ! j)" by simp
        ultimately have "Suc j = length cs2 \<and> r2 = Inl e" using j a2 by blast
        with le show ?thesis by (auto simp: j_def)
      qed
      show ?thesis
      proof (cases r2)
        case (Inl e2)
        with body sv tr \<open>r1 = Inr found\<close> have s: "s = s2" and r: "r = Inl e2"
          by (simp_all add: try_body_parts io_bind_def)
        from i stor fail have "Suc i = length (cs1 @ cs2) \<and> r2 = Inl e"
          unfolding s c2 c1 by (rule in_transfer)
        moreover from C2 have "\<forall>c\<in>set cs2. \<not> is_delete c" by (auto simp: list_all_iff)
        moreover from M1 M2 have "Checking_for_remote_files_to_delete \<notin> set (ms1 @ ms2)"
          by (auto simp: list_all_iff)
        ultimately show ?thesis
          using nodel1 Inl r by (auto simp: s c2 c1 p2 p1)
      next
        case (Inr u)
        let ?finish = "finish rt srv ftp_path found"
        from body sv tr \<open>r1 = Inr found\<close> Inr have fin: "?finish s2 = (r, s)"
          by (simp add: try_body_parts io_bind_def)
        from phaseD [OF phase_finish fin] obtain cs3
          where c3: "calls s = calls s2 @ cs3"
            and C3: "list_all (\<lambda>c. \<not> is_mlsd c \<and> \<not> is_mkd c \<and> \<not> is_rmd c \<and> \<not> is_storbinary c) cs3"
          by blast
        from C3 have nostor3: "\<forall>c\<in>set cs3. \<not> is_storbinary c" by (auto simp: list_all_iff)
        have "i < length (cs1 @ cs2)"
        proof (rule ccontr)
          assume "\<not> i < length (cs1 @ cs2)"
          with i c3 c2 c1 have "calls s ! i \<in> set cs3"
            by (auto simp: nth_append)
          with nostor3 stor show False by auto
        qed
        moreover have all_calls: "calls s = (cs1 @ cs2) @ cs3"
          by (simp add: c3 c2 c1)
        moreover from \<open>i < length (cs1 @ cs2)\<close> stor
        have "(cs1 @ cs2) ! i = Storbinary p content"
          unfolding all_calls by (metis nth_append)
        moreover from \<open>i < length (cs1 @ cs2)\<close> fail
        have "cmd_reply srv (take (Suc i) (cs1 @ cs2)) = Some e"
          by (simp add: c3 c2 c1)
        ultimately have "r2 = Inl e" using in_transfer by blast
        with Inr show ?thesis by simp
      qed
    qed
  qed
  from run show ?thesis
  proof (cases rule: main_cases)
    case (no_environment e')
    with i show ?thesis by (simp add: init_def)
  next
    case (caught ftp_host ftp_username ftp_password ftp_path e' s)
    from caught(7) have cs: "calls st = calls s"
      and ps: "printed st = printed s @ [Error_uploading e', Finished_banner]"
      by (simp_all add: say_def)
    from main_goal [OF caught(5)] i stor fail cs
    have "Suc i = length (calls s) \<and> (\<forall>c\<in>set (calls s). \<not> is_delete c) \<and>
      Checking_for_remote_files_to_delete \<notin> set (printed s) \<and> e' = e"
      by simp
    with cs ps caught(6) show ?thesis by auto
  next
    case (completed ftp_host ftp_username ftp_password ftp_path s)
    from completed(7) have cs: "calls st = calls s" by (simp add: say_def)
    from main_goal [OF completed(5)] i stor fail cs show ?thesis by simp
  qed
qed


theorem failed_upload_ends_the_run_witness:
  "main example_rt False example_environ
     (example_server [Storbinary (Path Root [''www'', ''a.txt'']) ''data'']) example_fs =
     (Exit_normally, failed_upload_trace) \<and>
   calls failed_upload_trace ! 11 = Storbinary (Path Root [''www'', ''a.txt'']) ''data'' \<and>
   cmd_reply (example_server [Storbinary (Path Root [''www'', ''a.txt'']) ''data''])
     (take (Suc 11) (calls failed_upload_trace)) = Some (Error_perm ''550'') \<and>
   Suc 11 = length (calls failed_upload_trace) \<and>
   Checking_for_remote_files_to_delete \<notin> set (printed failed_upload_trace) \<and>
   (\<exists>ms. printed failed_upload_trace = ms @ [Error_uploading (Error_perm ''550''), Finished_banner])"
proof -
  note run = failed_upload_run
  have i: "11 < length (calls failed_upload_trace)"
    by (simp add: failed_upload_trace_def)
  have stor: "calls failed_upload_trace ! 11 = Storbinary (Path Root [''www'', ''a.txt'']) ''data''"
    by (simp add: failed_upload_trace_def)
  have fail: "cmd_reply (example_server [Storbinary (Path Root [''www'', ''a.txt'']) ''data''])
     (take (Suc 11) (calls failed_upload_trace)) = Some (Error_perm ''550'')"
    by (simp add: failed_upload_trace_def example_server_def static_server_def)
  from failed_upload_ends_the_run [OF run i stor fail] run stor fail
  show ?thesis by blast
qed

text \<open>
  Claim C7, as amended. Every exception raised inside the \<^verbatim>\<open>try\<close> statement is caught by
  its handler, which prints the error; the banner is the last line printed and the
  process exits normally. This needs the four environment variables: they are read
  before the \<^verbatim>\<open>try\<close> statement, and the counterexample is a run without \<^verbatim>\<open>FTP_HOST\<close>,
  which ends with an uncaught \<^verbatim>\<open>KeyError\<close> and prints nothing.
\<close>

theorem exceptions_in_try_are_caught:
  assumes "environ ''FTP_HOST'' = Some ftp_host"
    and "environ ''FTP_USERNAME'' = Some ftp_username"
    and "environ ''FTP_PASSWORD'' = Some ftp_password"
    and "environ ''FTP_PATH'' = Some ftp_path"
  shows "main rt force environ srv fs =
          (case try_body rt force srv fs ftp_host ftp_username ftp_password ftp_path init of
             (Inl e, st) \<Rightarrow> (Exit_normally, say Finished_banner (say (Error_uploading e) st))
           | (Inr u, st) \<Rightarrow> (Exit_normally, say Finished_banner st)) \<and>
         fst (main rt force environ srv fs) = Exit_normally \<and>
         last (printed (snd (main rt force environ srv fs))) = Finished_banner"
  using assms
  by (simp add: main_def environ_get_def io_try_def print_def say_def
        split: prod.splits sum.splits)

theorem exceptions_in_try_are_caught_witness:
  "example_environ ''FTP_HOST'' = Some ''host'' \<and>
   example_environ ''FTP_USERNAME'' = Some ''user'' \<and>
   example_environ ''FTP_PASSWORD'' = Some ''secret'' \<and>
   example_environ ''FTP_PATH'' = Some ''/www'' \<and>
   main example_rt False example_environ
     (example_server [Storbinary (Path Root [''www'', ''a.txt'']) ''data'']) example_fs =
     (Exit_normally, failed_upload_trace) \<and>
   last (printed failed_upload_trace) = Finished_banner"
proof -
  have h1: "example_environ ''FTP_HOST'' = Some ''host''"
    and h2: "example_environ ''FTP_USERNAME'' = Some ''user''"
    and h3: "example_environ ''FTP_PASSWORD'' = Some ''secret''"
    and h4: "example_environ ''FTP_PATH'' = Some ''/www''"
    by (simp_all add: example_environ_def)
  from exceptions_in_try_are_caught [OF h1 h2 h3 h4, of example_rt False
      "example_server [Storbinary (Path Root [''www'', ''a.txt'']) ''data'']" example_fs]
  have "last (printed (snd (main example_rt False example_environ
     (example_server [Storbinary (Path Root [''www'', ''a.txt'']) ''data'']) example_fs))) =
     Finished_banner"
    by blast
  with h1 h2 h3 h4 failed_upload_run show ?thesis by simp
qed

theorem missing_environment_counterexample:
  "main example_rt False (example_environ(''FTP_HOST'' := None)) (example_server []) example_fs =
     (Traceback (KeyError ''FTP_HOST''), init) \<and>
   printed init = []"
  by (simp add: main_def environ_get_def example_environ_def init_def)

text \<open>
  Claim C8. On a server whose listings do not change, \<^verbatim>\<open>get_remote_files\<close> returns, for
  a list of directories that is exactly the set of directories reachable from the root
  through entries of type \<^verbatim>\<open>dir\<close>, the entries of type \<^verbatim>\<open>file\<close> of a second listing of
  each of them, each with its \<^verbatim>\<open>modify\<close> and \<^verbatim>\<open>size\<close> facts, in the order of the
  directories. It makes listing calls only, and a listing that raises is the last call it
  makes: the exception is its result. It does return the files when the tree is well listed
  within the frames that are left (one frame is taken by \<^verbatim>\<open>get_remote_files\<close> itself and
  one by each nested directory), and the second listing of every reachable directory
  succeeds with the facts of its files.
\<close>

theorem remote_enumeration:
  assumes static: "\<forall>cs p facts. mlsd_reply srv (cs @ [Mlsd p facts]) = listing p facts"
    and run: "get_remote_files n srv path st = (r, st')"
  shows "(\<forall>remote_files. r = Inr remote_files \<longrightarrow>
            (\<exists>dirs. set dirs = {d. rtranclp (child listing) (path_of path) d} \<and>
                    (\<forall>d\<in>set dirs. \<exists>entries.
                        listing d [''size'', ''modify'', ''type''] = Inr entries \<and>
                        has_file_facts entries) \<and>
                    remote_files =
                      concat (map (\<lambda>d. case listing d [''size'', ''modify'', ''type''] of
                                          Inl e \<Rightarrow> []
                                        | Inr entries \<Rightarrow> files_in d entries) dirs))) \<and>
         (\<exists>cs. calls st' = calls st @ cs \<and> list_all is_mlsd cs \<and>
               (\<forall>i p facts e. i < length cs \<and> cs ! i = Mlsd p facts \<and> listing p facts = Inl e
                  \<longrightarrow> Suc i = length cs \<and> r = Inl e)) \<and>
         (well_listed listing (n - 1) (path_of path) \<and>
          (\<forall>d. rtranclp (child listing) (path_of path) d \<longrightarrow>
                (\<exists>entries. listing d [''size'', ''modify'', ''type''] = Inr entries \<and>
                           has_file_facts entries))
          \<longrightarrow> (\<exists>remote_files. r = Inr remote_files))"
proof (intro conjI)
  show "well_listed listing (n - 1) (path_of path) \<and>
          (\<forall>d. rtranclp (child listing) (path_of path) d \<longrightarrow>
                (\<exists>entries. listing d [''size'', ''modify'', ''type''] = Inr entries \<and>
                           has_file_facts entries))
          \<longrightarrow> (\<exists>remote_files. r = Inr remote_files)"
  proof
    assume a: "well_listed listing (n - 1) (path_of path) \<and>
          (\<forall>d. rtranclp (child listing) (path_of path) d \<longrightarrow>
                (\<exists>entries. listing d [''size'', ''modify'', ''type''] = Inr entries \<and>
                           has_file_facts entries))"
    then have depth: "well_listed listing (n - 1) (path_of path)"
      and files: "\<forall>d. rtranclp (child listing) (path_of path) d \<longrightarrow>
                (\<exists>entries. listing d [''size'', ''modify'', ''type''] = Inr entries \<and>
                           has_file_facts entries)"
      by (rule conjunct1, rule conjunct2)
    from get_remote_files_returns [OF static depth files, of st] run
    show "\<exists>remote_files. r = Inr remote_files" by auto
  qed
next
  show "\<forall>remote_files. r = Inr remote_files \<longrightarrow>
            (\<exists>dirs. set dirs = {d. rtranclp (child listing) (path_of path) d} \<and>
                    (\<forall>d\<in>set dirs. \<exists>entries.
                        listing d [''size'', ''modify'', ''type''] = Inr entries \<and>
                        has_file_facts entries) \<and>
                    remote_files =
                      concat (map (\<lambda>d. case listing d [''size'', ''modify'', ''type''] of
                                          Inl e \<Rightarrow> []
                                        | Inr entries \<Rightarrow> files_in d entries) dirs))"
  proof (intro allI impI)
  fix remote_files
  assume r: "r = Inr remote_files"
  with run obtain dirs s1
    where d: "get_remote_dirs (n - 1) srv path st = (Inr dirs, s1)"
      and l: "list_remote_files srv dirs [] s1 = (Inr remote_files, st')"
    by (auto simp: get_remote_files_def io_bind_def split: prod.splits sum.splits)
  from d have "recursive_get_dirs (n - 1) srv (path_of path) [] st = (Inr dirs, s1)"
    by (simp add: get_remote_dirs_def)
  from get_dirs_reachable(1) [OF static this]
  have "set dirs = {d. rtranclp (child listing) (path_of path) d}"
    by simp
  with list_remote_files_static [OF static l]
  show "\<exists>dirs. set dirs = {d. rtranclp (child listing) (path_of path) d} \<and>
                    (\<forall>d\<in>set dirs. \<exists>entries.
                        listing d [''size'', ''modify'', ''type''] = Inr entries \<and>
                        has_file_facts entries) \<and>
                    remote_files =
                      concat (map (\<lambda>d. case listing d [''size'', ''modify'', ''type''] of
                                          Inl e \<Rightarrow> []
                                        | Inr entries \<Rightarrow> files_in d entries) dirs)"
    by (intro exI [of _ dirs]) simp
  qed
next
  from phaseD [OF phase_get_remote_files run] obtain cs
    where c: "calls st' = calls st @ cs" and m: "list_all is_mlsd cs"
      and a: "\<forall>i e. i < length cs \<longrightarrow> \<not> is_delete (cs ! i) \<longrightarrow>
                 failure srv (calls st @ take (Suc i) cs) = Some e \<longrightarrow>
                 Suc i = length cs \<and> r = Inl e"
    by blast
  have "Suc i = length cs \<and> r = Inl e"
    if i: "i < length cs" and call: "cs ! i = Mlsd p facts" and err: "listing p facts = Inl e"
    for i p facts e
  proof -
    from i call have tk: "calls st @ take (Suc i) cs = (calls st @ take i cs) @ [Mlsd p facts]"
      by (simp add: take_Suc_conv_app_nth)
    from static have "mlsd_reply srv ((calls st @ take i cs) @ [Mlsd p facts]) = listing p facts"
      by blast
    with err have "mlsd_reply srv ((calls st @ take i cs) @ [Mlsd p facts]) = Inl e"
      by (simp only:)
    then have "failure srv (calls st @ take (Suc i) cs) = Some e"
      unfolding tk by (simp add: failure_def)
    moreover from call have "\<not> is_delete (cs ! i)" by simp
    ultimately show ?thesis using i a by blast
  qed
  with c m show "\<exists>cs. calls st' = calls st @ cs \<and> list_all is_mlsd cs \<and>
               (\<forall>i p facts e. i < length cs \<and> cs ! i = Mlsd p facts \<and> listing p facts = Inl e
                  \<longrightarrow> Suc i = length cs \<and> r = Inl e)"
    by blast
qed

theorem remote_enumeration_witness:
  "(\<forall>cs p facts. mlsd_reply (example_server []) (cs @ [Mlsd p facts]) = example_listing p facts) \<and>
   get_remote_files 5 (example_server []) ''.'' init =
     (Inr example_remote_files,
      \<lparr>calls = [Mlsd (Path Relative []) [''type''],
                Mlsd (Path Relative [''old'']) [''type''],
                Mlsd (Path Relative []) [''size'', ''modify'', ''type''],
                Mlsd (Path Relative [''old'']) [''size'', ''modify'', ''type'']],
       printed = []\<rparr>) \<and>
   well_listed example_listing (5 - 1) (path_of ''.'') \<and>
   (\<exists>dirs. set dirs = {d. rtranclp (child example_listing) (path_of ''.'') d} \<and>
           (\<forall>d\<in>set dirs. \<exists>entries.
               example_listing d [''size'', ''modify'', ''type''] = Inr entries \<and>
               has_file_facts entries) \<and>
           example_remote_files =
             concat (map (\<lambda>d. case example_listing d [''size'', ''modify'', ''type''] of
                                 Inl e \<Rightarrow> []
                               | Inr entries \<Rightarrow> files_in d entries) dirs))"
proof -
  have depth: "well_listed example_listing (5 - 1) (path_of ''.'')"
    by (simp add: example_simps path_simps eval_nat_numeral)
  have static: "\<forall>cs p facts. mlsd_reply (example_server []) (cs @ [Mlsd p facts]) =
      example_listing p facts"
    by (simp add: example_server_def static_server_def)
  have run: "get_remote_files 5 (example_server []) ''.'' init =
     (Inr example_remote_files,
      \<lparr>calls = [Mlsd (Path Relative []) [''type''],
                Mlsd (Path Relative [''old'']) [''type''],
                Mlsd (Path Relative []) [''size'', ''modify'', ''type''],
                Mlsd (Path Relative [''old'']) [''size'', ''modify'', ''type'']],
       printed = []\<rparr>)"
    by (simp add: script_simps io_simps example_simps path_simps example_remote_files_def
          eval_nat_numeral)
  from remote_enumeration [OF static run]
  have "\<exists>dirs. set dirs = {d. rtranclp (child example_listing) (path_of ''.'') d} \<and>
           (\<forall>d\<in>set dirs. \<exists>entries.
               example_listing d [''size'', ''modify'', ''type''] = Inr entries \<and>
               has_file_facts entries) \<and>
           example_remote_files =
             concat (map (\<lambda>d. case example_listing d [''size'', ''modify'', ''type''] of
                                 Inl e \<Rightarrow> []
                               | Inr entries \<Rightarrow> files_in d entries) dirs)"
    by blast
  with static run depth show ?thesis by (intro conjI)
qed

text \<open>
  Claim C9. The mirroring phase calls neither \<^verbatim>\<open>delete\<close> nor \<^verbatim>\<open>rmd\<close>: every call it makes
  is a listing or a \<^verbatim>\<open>mkd\<close>. No call of a whole run is an \<^verbatim>\<open>rmd\<close>, so no remote directory
  is ever removed, whether it has a local counterpart or not.
\<close>

theorem mirroring_never_deletes:
  assumes mirror: "mirror_directories rt srv fs ftp_path st = (r, st')"
    and run: "main rt force environ srv fs' = (out, final)"
  shows "(\<exists>cs. calls st' = calls st @ cs \<and> (\<forall>c\<in>set cs. is_mlsd c \<or> is_mkd c)) \<and>
         (\<forall>c\<in>set (calls final). \<not> is_rmd c)"
proof -
  from phaseD [OF phase_mirror_directories mirror]
  have "\<exists>cs. calls st' = calls st @ cs \<and> (\<forall>c\<in>set cs. is_mlsd c \<or> is_mkd c)"
    by (auto simp: list_all_iff)
  moreover from run have "\<forall>c\<in>set (calls final). \<not> is_rmd c"
  proof (cases rule: main_cases)
    case (no_environment e)
    then show ?thesis by (simp add: init_def)
  next
    case (caught ftp_host ftp_username ftp_password ftp_path e s)
    from phaseD [OF phase_try_body caught(5)] caught(7) show ?thesis
      by (auto simp: list_all_iff init_def say_def)
  next
    case (completed ftp_host ftp_username ftp_password ftp_path s)
    from phaseD [OF phase_try_body completed(5)] completed(7) show ?thesis
      by (auto simp: list_all_iff init_def say_def)
  qed
  ultimately show ?thesis by blast
qed


theorem mirroring_never_deletes_witness:
  "mirror_directories example_rt (example_server []) example_fs ''/www'' init =
     (Inr (), mirrored_trace) \<and>
   main example_rt False example_environ (example_server []) example_fs =
     (Exit_normally, full_run_trace) \<and>
   list_all (\<lambda>c. is_mlsd c \<or> is_mkd c) (calls mirrored_trace) \<and>
   list_all (\<lambda>c. \<not> is_rmd c) (calls full_run_trace)"
proof -
  from mirroring_never_deletes [OF mirrored_run full_run]
  have a: "\<exists>cs. calls mirrored_trace = calls init @ cs \<and> (\<forall>c\<in>set cs. is_mlsd c \<or> is_mkd c)"
    and b: "\<forall>c\<in>set (calls full_run_trace). \<not> is_rmd c"
    by blast+
  from a have "list_all (\<lambda>c. is_mlsd c \<or> is_mkd c) (calls mirrored_trace)"
    by (auto simp: init_def list_all_iff)
  moreover from b have "list_all (\<lambda>c. \<not> is_rmd c) (calls full_run_trace)"
    by (simp add: list_all_iff)
  ultimately show ?thesis using mirrored_run full_run by (intro conjI)
qed

text \<open>
  Claim C10. The force flag does not change what is deleted: of two runs on the same
  inputs, one with and one without the flag, that both reach the deletion phase, the
  \<^verbatim>\<open>delete\<close> calls are the same, in the same order. They are the calls planned from the
  remote listing and the local files that \<open>survey\<close> returned, before anything was
  uploaded.
\<close>

theorem deletions_do_not_depend_on_force:
  assumes forced: "main rt True environ srv fs = (out, st)"
    and unforced: "main rt False environ srv fs = (out', st')"
    and reached: "Checking_for_remote_files_to_delete \<in> set (printed st)"
    and reached': "Checking_for_remote_files_to_delete \<in> set (printed st')"
  shows "filter is_delete (calls st) = filter is_delete (calls st') \<and>
         (\<exists>ftp_host ftp_username ftp_password ftp_path found s.
            environ ''FTP_PATH'' = Some ftp_path \<and>
            survey rt srv fs ftp_host ftp_username ftp_password ftp_path init = (Inr found, s) \<and>
            filter is_delete (calls st) = planned_deletes rt ftp_path found)"
proof -
  from deletes_of_a_run [OF forced reached] obtain ftp_host ftp_username ftp_password ftp_path found s
    where env: "environ ''FTP_HOST'' = Some ftp_host" "environ ''FTP_USERNAME'' = Some ftp_username"
      "environ ''FTP_PASSWORD'' = Some ftp_password" "environ ''FTP_PATH'' = Some ftp_path"
      and sv: "survey rt srv fs ftp_host ftp_username ftp_password ftp_path init = (Inr found, s)"
      and d: "filter is_delete (calls st) = planned_deletes rt ftp_path found"
    by blast
  from deletes_of_a_run [OF unforced reached'] env sv
  have "filter is_delete (calls st') = planned_deletes rt ftp_path found"
    by auto
  with d have "filter is_delete (calls st) = filter is_delete (calls st')" by simp
  with d env(4) sv show ?thesis by blast
qed


theorem deletions_do_not_depend_on_force_witness:
  "main example_rt True example_environ (example_server []) example_fs =
     (Exit_normally, forced_run_trace) \<and>
   main example_rt False example_environ (example_server []) example_fs =
     (Exit_normally, full_run_trace) \<and>
   Checking_for_remote_files_to_delete \<in> set (printed forced_run_trace) \<and>
   Checking_for_remote_files_to_delete \<in> set (printed full_run_trace) \<and>
   filter is_delete (calls forced_run_trace) = filter is_delete (calls full_run_trace) \<and>
   filter is_delete (calls full_run_trace) =
     [Delete (Path Root [''www'', ''b.txt'']), Delete (Path Root [''www'', ''old'', ''x.txt''])]"
proof -
  have r1: "Checking_for_remote_files_to_delete \<in> set (printed forced_run_trace)"
    by (simp add: forced_run_trace_def)
  have r2: "Checking_for_remote_files_to_delete \<in> set (printed full_run_trace)"
    by (simp add: full_run_trace_def)
  have d: "filter is_delete (calls full_run_trace) =
     [Delete (Path Root [''www'', ''b.txt'']), Delete (Path Root [''www'', ''old'', ''x.txt''])]"
    by (simp add: full_run_trace_def full_run_calls_def)
  from deletions_do_not_depend_on_force [OF forced_run full_run r1 r2]
  have "filter is_delete (calls forced_run_trace) = filter is_delete (calls full_run_trace)"
    by (rule conjunct1)
  with forced_run full_run r1 r2 d show ?thesis by (intro conjI)
qed

end
